theory Spec2Isabelle
  imports Main "HOL-Library.Word"
begin

unbundle bit_operations_syntax

section \<open>Machine types\<close>

type_synonym u8 = "8 word"
type_synonym u16 = "16 word"
type_synonym u32 = "32 word"
type_synonym u64 = "64 word"

section \<open>Sequence tracker (gateway/sequence\_tracker.h, .cpp)\<close>

datatype SeqResult = FIRST | SEQ_OK | GAP | REORDER | DUPLICATE

record SeqEvent =
  result :: SeqResult
  ev_src_id :: u16
  expected_seq :: u32
  actual_seq :: u32
  gap_size :: u32

text \<open>\<open>WINDOW_SIZE\<close> is a \<open>std::size_t\<close> constant; the window is a \<open>std::bitset<64>\<close>,
  modelled as a 64-bit word: \<open><<=\<close> is \<open>push_bit\<close> (bits shifted past index 63 are lost),
  \<open>set(i)\<close> is \<open>set_bit i\<close>, \<open>test(i)\<close> is \<open>bit w i\<close>, \<open>reset()\<close> is 0.\<close>

definition WINDOW_SIZE :: nat where
  "WINDOW_SIZE = 64"

record SourceState =
  next_expected :: u32
  initialized :: bool
  seen_window :: u64

definition SourceState_default :: SourceState where
  "SourceState_default = \<lparr>next_expected = 0, initialized = False, seen_window = 0\<rparr>"

record SequenceTracker =
  sources :: "u16 \<rightharpoonup> SourceState"

definition SequenceTracker_new :: SequenceTracker where
  "SequenceTracker_new = \<lparr>sources = Map.empty\<rparr>"

definition mk_event :: "SeqResult \<Rightarrow> u16 \<Rightarrow> u32 \<Rightarrow> u32 \<Rightarrow> u32 \<Rightarrow> SeqEvent" where
  "mk_event r sid e a g =
     \<lparr>result = r, ev_src_id = sid, expected_seq = e, actual_seq = a, gap_size = g\<rparr>"

text \<open>The body of \<open>SequenceTracker::track\<close> on the entry \<open>s = sources_[src_id]\<close>;
  it returns the event and the updated entry. All sequence arithmetic is unsigned
  32-bit; \<open>gap + 1\<close> is computed in 32 bits before it is compared with the
  \<open>size_t\<close> window size.\<close>

definition track_source :: "SourceState \<Rightarrow> u16 \<Rightarrow> u32 \<Rightarrow> SeqEvent \<times> SourceState" where
  "track_source s src_id seq =
    (if \<not> initialized s then
       (mk_event FIRST src_id 0 seq 0,
        s\<lparr>initialized := True, next_expected := seq + 1, seen_window := 0\<rparr>)
     else if seq = next_expected s then
       (mk_event SEQ_OK src_id seq seq 0,
        s\<lparr>seen_window := set_bit (WINDOW_SIZE - 1) (push_bit 1 (seen_window s)),
          next_expected := seq + 1\<rparr>)
     else if seq > next_expected s then
       (let gap = seq - next_expected s;
            w = (if unat (gap + 1) \<ge> WINDOW_SIZE then 0
                 else push_bit (unat (gap + 1)) (seen_window s))
        in (mk_event GAP src_id (seq - gap) seq gap,
            s\<lparr>seen_window := set_bit (WINDOW_SIZE - 1) w, next_expected := seq + 1\<rparr>))
     else
       (let age = next_expected s - seq in
        if unat age \<le> WINDOW_SIZE then
          (let bit_idx = WINDOW_SIZE - unat age in
           if bit (seen_window s) bit_idx then
             (mk_event DUPLICATE src_id (next_expected s) seq 0, s)
           else
             (mk_event REORDER src_id (next_expected s) seq 0,
              s\<lparr>seen_window := set_bit bit_idx (seen_window s)\<rparr>))
        else
          (mk_event REORDER src_id (next_expected s) seq 0, s)))"

text \<open>\<open>sources_[src_id]\<close> default-constructs a missing entry; the entry is written back.\<close>

definition track :: "SequenceTracker \<Rightarrow> u16 \<Rightarrow> u32 \<Rightarrow> SeqEvent \<times> SequenceTracker" where
  "track t src_id seq =
    (let s = (case sources t src_id of None \<Rightarrow> SourceState_default | Some s0 \<Rightarrow> s0);
         (ev, s') = track_source s src_id seq
     in (ev, t\<lparr>sources := (sources t)(src_id \<mapsto> s')\<rparr>))"

definition reset_source :: "SequenceTracker \<Rightarrow> u16 \<Rightarrow> SequenceTracker" where
  "reset_source t src_id = t\<lparr>sources := (sources t)(src_id := None)\<rparr>"

text \<open>Feeding a list of \<open>(src_id, seq)\<close> pairs in order, collecting the events.\<close>

fun track_all :: "SequenceTracker \<Rightarrow> (u16 \<times> u32) list \<Rightarrow> SeqEvent list \<times> SequenceTracker" where
  "track_all t [] = ([], t)"
| "track_all t ((sid, seq) # rest) =
     (let (ev, t') = track t sid seq;
          (evs, t'') = track_all t' rest
      in (ev # evs, t''))"

text \<open>The entry \<open>sources_[src_id]\<close> would yield: the stored one, or a default-constructed one.\<close>

definition source_of :: "SequenceTracker \<Rightarrow> u16 \<Rightarrow> SourceState" where
  "source_of t sid = (case sources t sid of None \<Rightarrow> SourceState_default | Some s \<Rightarrow> s)"

definition is_initialized :: "SequenceTracker \<Rightarrow> u16 \<Rightarrow> bool" where
  "is_initialized t sid = initialized (source_of t sid)"

text \<open>The calls made between the FIRST call and a re-send: running them from \<open>t\<close>, no call
  for source \<open>sid\<close> carries the sequence number \<open>s\<close> itself or is classified REORDER. Calls
  for other sources are not restricted.\<close>

fun no_reorder_between :: "SequenceTracker \<Rightarrow> u16 \<Rightarrow> u32 \<Rightarrow> (u16 \<times> u32) list \<Rightarrow> bool" where
  "no_reorder_between t sid s [] = True"
| "no_reorder_between t sid s ((sid', q) # rest) =
     (let (ev, t') = track t sid' q
      in (sid' \<noteq> sid \<or> (q \<noteq> s \<and> result ev \<noteq> REORDER)) \<and> no_reorder_between t' sid s rest)"

text \<open>The state of a source whose first sequence number \<open>s\<close> is not marked in the window:
  the window is empty or holds only bit 63, and then bit 63 does not stand for \<open>s\<close>.\<close>

definition first_unmarked :: "u32 \<Rightarrow> SourceState \<Rightarrow> bool" where
  "first_unmarked s st =
     (initialized st \<and>
      (seen_window st = 0 \<or> (seen_window st = set_bit 63 0 \<and> next_expected st \<noteq> s + 1)))"

text \<open>A run for source 1 after its first number 0: OK, a call for source 2, OK, GAP and a
  DUPLICATE of 5.\<close>

definition quiet_calls :: "(u16 \<times> u32) list" where
  "quiet_calls = [(1, 1), (2, 7), (1, 2), (1, 5), (1, 5)]"

section \<open>CRC engine (common/crc32.cpp)\<close>

text \<open>\<open>make_crc_entry\<close>: eight rounds of the reflected shift-and-xor step; the
  256-entry table is built from it at compile time.\<close>

definition crc_shift_step :: "u32 \<Rightarrow> u32" where
  "crc_shift_step crc =
     (if crc AND 1 \<noteq> 0 then drop_bit 1 crc XOR 0xEDB88320 else drop_bit 1 crc)"

definition make_crc_entry :: "u32 \<Rightarrow> u32" where
  "make_crc_entry idx = (crc_shift_step ^^ 8) idx"

definition table_entries :: "u32 list" where
  "table_entries = map (\<lambda>i. make_crc_entry (of_nat i)) [0..<256]"

text \<open>One iteration of the loop of \<open>crc32_update\<close>: the byte is widened to 32 bits,
  xor-ed with the running value and truncated to 8 bits to index the table.\<close>

definition crc_byte :: "u32 \<Rightarrow> u8 \<Rightarrow> u32" where
  "crc_byte crc b =
     (let idx = (ucast (crc XOR ucast b) :: u8)
      in drop_bit 8 crc XOR table_entries ! unat idx)"

primrec crc_loop :: "u32 \<Rightarrow> u8 list \<Rightarrow> u32" where
  "crc_loop crc [] = crc"
| "crc_loop crc (b # bs) = crc_loop (crc_byte crc b) bs"

definition crc32_update :: "u32 \<Rightarrow> u8 list \<Rightarrow> u32" where
  "crc32_update crc data = NOT (crc_loop (NOT crc) data)"

definition crc32 :: "u8 list \<Rightarrow> u32" where
  "crc32 data = crc32_update 0 data"

section \<open>Wire protocol (common/types.h, common/protocol.h)\<close>

definition PROTOCOL_VERSION :: u8 where
  "PROTOCOL_VERSION = 1"

definition MsgType_PLOT :: u8 where
  "MsgType_PLOT = 0x01"

definition MsgType_TRACK :: u8 where
  "MsgType_TRACK = 0x02"

definition MsgType_HEARTBEAT :: u8 where
  "MsgType_HEARTBEAT = 0x03"

definition MsgType_ENGAGEMENT :: u8 where
  "MsgType_ENGAGEMENT = 0x04"

definition FRAME_HEADER_SIZE :: nat where
  "FRAME_HEADER_SIZE = 18"

definition FRAME_CRC_SIZE :: nat where
  "FRAME_CRC_SIZE = 4"

definition MAX_PAYLOAD_SIZE :: nat where
  "MAX_PAYLOAD_SIZE = 1024"

record TelemetryHeader =
  h_version :: u8
  h_msg_type :: u8
  h_src_id :: u16
  h_seq :: u32
  h_ts_ns :: u64
  h_payload_len :: u16

text \<open>\<open>memcpy\<close> into an integer on the little-endian host the code is written for:
  the first byte is the least significant.\<close>

primrec le_word :: "u8 list \<Rightarrow> 'a::len word" where
  "le_word [] = 0"
| "le_word (b # bs) = ucast b OR push_bit 8 (le_word bs)"

definition bytes_at :: "u8 list \<Rightarrow> nat \<Rightarrow> nat \<Rightarrow> u8 list" where
  "bytes_at buf off n = take n (drop off buf)"

text \<open>\<open>deserialize_header\<close> copies 18 bytes into the packed struct; the caller has
  checked that the buffer holds them.\<close>

definition deserialize_header :: "u8 list \<Rightarrow> TelemetryHeader" where
  "deserialize_header buf =
     \<lparr>h_version = buf ! 0,
      h_msg_type = buf ! 1,
      h_src_id = le_word (bytes_at buf 2 2),
      h_seq = le_word (bytes_at buf 4 4),
      h_ts_ns = le_word (bytes_at buf 8 8),
      h_payload_len = le_word (bytes_at buf 16 2)\<rparr>"

section \<open>Frame parser (gateway/telemetry\_parser.h, .cpp)\<close>

datatype ParseError =
  PARSE_OK | TOO_SHORT | BAD_VERSION | BAD_MSG_TYPE | PAYLOAD_TOO_LONG | TRUNCATED | CRC_MISMATCH

text \<open>\<open>payload_ptr\<close> points into the caller's buffer: \<open>None\<close> is the null pointer,
  \<open>Some off\<close> is \<open>buf + off\<close>.\<close>

record ParsedFrame =
  header :: TelemetryHeader
  payload_ptr :: "nat option"
  crc :: u32
  has_crc :: bool

definition parse_frame :: "u8 list \<Rightarrow> bool \<Rightarrow> ParsedFrame \<Rightarrow> ParseError \<times> ParsedFrame" where
  "parse_frame buf crc_enabled out =
    (let len = length buf in
     if len < FRAME_HEADER_SIZE then (TOO_SHORT, out)
     else
       let out1 = out\<lparr>header := deserialize_header buf\<rparr> in
       if h_version (header out1) \<noteq> PROTOCOL_VERSION then (BAD_VERSION, out1)
       else
         let mt = h_msg_type (header out1) in
         if mt < MsgType_PLOT \<or> mt > MsgType_ENGAGEMENT then (BAD_MSG_TYPE, out1)
         else if unat (h_payload_len (header out1)) > MAX_PAYLOAD_SIZE then
           (PAYLOAD_TOO_LONG, out1)
         else
           let expected = FRAME_HEADER_SIZE + unat (h_payload_len (header out1))
                          + (if crc_enabled then FRAME_CRC_SIZE else 0) in
           if len < expected then (TRUNCATED, out1)
           else
             let out2 = out1\<lparr>payload_ptr := Some FRAME_HEADER_SIZE, has_crc := crc_enabled\<rparr> in
             if crc_enabled then
               let crc_offset = FRAME_HEADER_SIZE + unat (h_payload_len (header out2));
                   out3 = out2\<lparr>crc := le_word (bytes_at buf crc_offset FRAME_CRC_SIZE)\<rparr>;
                   computed = crc32 (take (FRAME_HEADER_SIZE + unat (h_payload_len (header out3))) buf)
               in if computed \<noteq> crc out3 then (CRC_MISMATCH, out3) else (PARSE_OK, out3)
             else (PARSE_OK, out2\<lparr>crc := 0\<rparr>))"

text \<open>The error ordering in the words of the specification: six checks on the raw bytes
  in a fixed order, each paired with its error; the first check that fails gives the
  result, and a buffer failing none is OK. The fields are read at their wire offsets:
  \<open>version\<close> is byte 0, \<open>msg_type\<close> is byte 1, \<open>payload_len\<close> is the little-endian
  16-bit value in bytes 16 and 17.\<close>

definition wire_payload_len :: "u8 list \<Rightarrow> nat" where
  "wire_payload_len buf = unat (buf ! 16) + 256 * unat (buf ! 17)"

definition spec_checks :: "u8 list \<Rightarrow> bool \<Rightarrow> (bool \<times> ParseError) list" where
  "spec_checks buf crc_enabled =
     [(length buf < 18, TOO_SHORT),
      (buf ! 0 \<noteq> 1, BAD_VERSION),
      (\<not> (0x01 \<le> buf ! 1 \<and> buf ! 1 \<le> 0x04), BAD_MSG_TYPE),
      (wire_payload_len buf > 1024, PAYLOAD_TOO_LONG),
      (length buf < 18 + wire_payload_len buf + (if crc_enabled then 4 else 0), TRUNCATED),
      (crc_enabled \<and>
         crc32 (take (18 + wire_payload_len buf) buf)
           \<noteq> le_word (take 4 (drop (18 + wire_payload_len buf) buf)),
       CRC_MISMATCH)]"

definition earliest_failure :: "(bool \<times> ParseError) list \<Rightarrow> ParseError" where
  "earliest_failure cs = (case filter fst cs of [] \<Rightarrow> PARSE_OK | c # _ \<Rightarrow> snd c)"

definition TelemetryHeader_zero :: TelemetryHeader where
  "TelemetryHeader_zero =
     \<lparr>h_version = 0, h_msg_type = 0, h_src_id = 0, h_seq = 0, h_ts_ns = 0, h_payload_len = 0\<rparr>"

definition ParsedFrame_default :: ParsedFrame where
  "ParsedFrame_default =
     \<lparr>header = TelemetryHeader_zero, payload_ptr = None, crc = 0, has_crc = False\<rparr>"

definition bad_version_frame :: "u8 list" where
  "bad_version_frame =
     [99, 9, 0x12, 0x00, 1, 0, 0, 0, 0x40, 0x42, 0x0F, 0, 0, 0, 0, 0, 25, 0]"

section \<open>Statistics manager (gateway/stats\_manager.h, .cpp)\<close>

record GlobalStats =
  rx_total :: u64
  malformed_total :: u64
  gap_total :: u64
  reorder_total :: u64
  duplicate_total :: u64
  crc_fail_total :: u64

record SourceStats =
  src_id :: u16
  rx_count :: u64
  malformed :: u64
  gaps :: u64
  reorders :: u64
  duplicates :: u64
  last_seq :: u32
  last_ts_ns :: u64

definition GlobalStats_default :: GlobalStats where
  "GlobalStats_default =
     \<lparr>rx_total = 0, malformed_total = 0, gap_total = 0, reorder_total = 0,
      duplicate_total = 0, crc_fail_total = 0\<rparr>"

definition SourceStats_default :: SourceStats where
  "SourceStats_default =
     \<lparr>src_id = 0, rx_count = 0, malformed = 0, gaps = 0, reorders = 0, duplicates = 0,
      last_seq = 0, last_ts_ns = 0\<rparr>"

text \<open>The mutex only serialises the calls; each method is modelled as one atomic step on
  the two data members.\<close>

record StatsManager =
  global_stats :: GlobalStats
  source_stats :: "u16 \<rightharpoonup> SourceStats"

definition StatsManager_new :: StatsManager where
  "StatsManager_new = \<lparr>global_stats = GlobalStats_default, source_stats = Map.empty\<rparr>"

text \<open>\<open>get_or_create_source\<close> returns a reference to the entry, inserting a
  default-constructed one with its \<open>src_id\<close> set when there is none. The model returns
  the entry together with the manager that holds it; callers write the modified entry
  back with \<open>put_source\<close>.\<close>

definition get_or_create_source :: "StatsManager \<Rightarrow> u16 \<Rightarrow> SourceStats \<times> StatsManager" where
  "get_or_create_source m sid =
     (case source_stats m sid of
        None \<Rightarrow>
          (let s = SourceStats_default\<lparr>src_id := sid\<rparr>
           in (s, m\<lparr>source_stats := (source_stats m)(sid \<mapsto> s)\<rparr>))
      | Some s \<Rightarrow> (s, m))"

definition put_source :: "StatsManager \<Rightarrow> u16 \<Rightarrow> SourceStats \<Rightarrow> StatsManager" where
  "put_source m sid s = m\<lparr>source_stats := (source_stats m)(sid \<mapsto> s)\<rparr>"

definition record_rx :: "StatsManager \<Rightarrow> u16 \<Rightarrow> u32 \<Rightarrow> u64 \<Rightarrow> StatsManager" where
  "record_rx m sid sq ts =
     (let g = global_stats m;
          m1 = m\<lparr>global_stats := g\<lparr>rx_total := rx_total g + 1\<rparr>\<rparr>;
          (s, m2) = get_or_create_source m1 sid
      in put_source m2 sid (s\<lparr>rx_count := rx_count s + 1, last_seq := sq, last_ts_ns := ts\<rparr>))"

definition record_malformed :: "StatsManager \<Rightarrow> u16 \<Rightarrow> StatsManager" where
  "record_malformed m sid =
     (let g = global_stats m;
          m1 = m\<lparr>global_stats := g\<lparr>malformed_total := malformed_total g + 1\<rparr>\<rparr>;
          (s, m2) = get_or_create_source m1 sid
      in put_source m2 sid (s\<lparr>malformed := malformed s + 1\<rparr>))"

definition record_gap :: "StatsManager \<Rightarrow> u16 \<Rightarrow> u32 \<Rightarrow> StatsManager" where
  "record_gap m sid gap =
     (let g = global_stats m;
          m1 = m\<lparr>global_stats := g\<lparr>gap_total := gap_total g + ucast gap\<rparr>\<rparr>;
          (s, m2) = get_or_create_source m1 sid
      in put_source m2 sid (s\<lparr>gaps := gaps s + ucast gap\<rparr>))"

definition record_reorder :: "StatsManager \<Rightarrow> u16 \<Rightarrow> StatsManager" where
  "record_reorder m sid =
     (let g = global_stats m;
          m1 = m\<lparr>global_stats := g\<lparr>reorder_total := reorder_total g + 1\<rparr>\<rparr>;
          (s, m2) = get_or_create_source m1 sid
      in put_source m2 sid (s\<lparr>reorders := reorders s + 1\<rparr>))"

definition record_duplicate :: "StatsManager \<Rightarrow> u16 \<Rightarrow> StatsManager" where
  "record_duplicate m sid =
     (let g = global_stats m;
          m1 = m\<lparr>global_stats := g\<lparr>duplicate_total := duplicate_total g + 1\<rparr>\<rparr>;
          (s, m2) = get_or_create_source m1 sid
      in put_source m2 sid (s\<lparr>duplicates := duplicates s + 1\<rparr>))"

text \<open>\<open>record_crc_fail\<close> counts the failure globally as a CRC failure and, on the source,
  as malformed.\<close>

definition record_crc_fail :: "StatsManager \<Rightarrow> u16 \<Rightarrow> StatsManager" where
  "record_crc_fail m sid =
     (let g = global_stats m;
          m1 = m\<lparr>global_stats := g\<lparr>crc_fail_total := crc_fail_total g + 1\<rparr>\<rparr>;
          (s, m2) = get_or_create_source m1 sid
      in put_source m2 sid (s\<lparr>malformed := malformed s + 1\<rparr>))"

definition get_global_stats :: "StatsManager \<Rightarrow> GlobalStats" where
  "get_global_stats m = global_stats m"

text \<open>\<open>get_source_stats\<close> is a \<open>const\<close> method: it looks the id up with \<open>find\<close> and
  answers a default-constructed value when there is no entry.\<close>

definition get_source_stats :: "StatsManager \<Rightarrow> u16 \<Rightarrow> SourceStats" where
  "get_source_stats m sid =
     (case source_stats m sid of None \<Rightarrow> SourceStats_default | Some s \<Rightarrow> s)"

definition counters_of :: "SourceStats \<Rightarrow> u64 \<times> u64 \<times> u64 \<times> u64 \<times> u64" where
  "counters_of s = (rx_count s, malformed s, gaps s, reorders s, duplicates s)"

text \<open>Every entry carries its own id: \<open>get_or_create_source\<close> sets \<open>src_id\<close> when it
  inserts an entry, and no method changes it afterwards.\<close>

definition entries_keyed :: "StatsManager \<Rightarrow> bool" where
  "entries_keyed m = (\<forall>sid e. source_stats m sid = Some e \<longrightarrow> src_id e = sid)"

section \<open>Gateway orchestrator (gateway/gateway.h, .cpp)\<close>

datatype Severity = DEBUG | INFO | WARN | ALARM | ERROR | FATAL

datatype EventCategory = TRACKING | THREAT | IFF | ENGAGEMENT | NETWORK | HEALTH | CONTROL

datatype EventId =
    EVT_TRACK_NEW | EVT_TRACK_UPDATE | EVT_TRACK_LOST | EVT_TRACK_CLASSIFY
  | EVT_THREAT_EVAL | EVT_THREAT_CRITICAL | EVT_IFF_RESPONSE | EVT_IFF_FOE
  | EVT_ENGAGE_START | EVT_ENGAGE_CEASE | EVT_WEAPON_STATUS | EVT_AMMO_LOW
  | EVT_SEQ_GAP | EVT_SEQ_REORDER | EVT_FRAME_MALFORMED | EVT_CRC_FAIL
  | EVT_SOURCE_ONLINE | EVT_SOURCE_TIMEOUT
  | EVT_HEARTBEAT_OK | EVT_HEARTBEAT_DEGRADE | EVT_HEARTBEAT_ERROR | EVT_CONFIG_CHANGE

definition SubsystemState_OK :: u8 where
  "SubsystemState_OK = 0"

definition SubsystemState_DEGRADED :: u8 where
  "SubsystemState_DEGRADED = 1"

definition SubsystemState_ERROR :: u8 where
  "SubsystemState_ERROR = 2"

definition SubsystemState_OFFLINE :: u8 where
  "SubsystemState_OFFLINE = 3"

text \<open>Sizes of the packed payload structs, and the offset of \<open>state\<close> in
  \<open>HeartbeatPayload\<close> (after the 16-bit \<open>subsystem_id\<close>).\<close>

definition sizeof_PlotPayload :: nat where
  "sizeof_PlotPayload = 21"

definition sizeof_TrackPayload :: nat where
  "sizeof_TrackPayload = 25"

definition sizeof_HeartbeatPayload :: nat where
  "sizeof_HeartbeatPayload = 11"

definition sizeof_EngagementPayload :: nat where
  "sizeof_EngagementPayload = 13"

definition heartbeat_state_offset :: nat where
  "heartbeat_state_offset = 2"

text \<open>An event as the gateway publishes it. The detail string and the clock reading of
  \<open>publish_event\<close> are left out; the id, category and severity are kept.\<close>

record EventRecord =
  ev_id :: EventId
  ev_category :: EventCategory
  ev_severity :: Severity

text \<open>The recorder appends one record per frame while its file is open.\<close>

record FrameRecorder =
  rec_is_open :: bool
  rec_frames :: "(u64 \<times> u8 list) list"

definition recorder_record :: "FrameRecorder \<Rightarrow> u64 \<Rightarrow> u8 list \<Rightarrow> FrameRecorder" where
  "recorder_record r ts frame =
     (if \<not> rec_is_open r then r else r\<lparr>rec_frames := rec_frames r @ [(ts, frame)]\<rparr>)"

record Gateway =
  cfg_crc_enabled :: bool
  cfg_record_enabled :: bool
  tracker :: SequenceTracker
  stats :: StatsManager
  events :: "EventRecord list"
  recorder :: FrameRecorder

definition publish_event :: "Gateway \<Rightarrow> EventId \<Rightarrow> EventCategory \<Rightarrow> Severity \<Rightarrow> Gateway" where
  "publish_event gw i cat sev =
     gw\<lparr>events := events gw @ [\<lparr>ev_id = i, ev_category = cat, ev_severity = sev\<rparr>]\<rparr>"

text \<open>The error branch of \<open>process_frame\<close>: every failure is booked on source id 0, and
  a CRC mismatch is booked a second time through \<open>record_crc_fail\<close>.\<close>

definition handle_parse_error :: "Gateway \<Rightarrow> ParseError \<Rightarrow> Gateway" where
  "handle_parse_error gw err =
     (let gw1 = gw\<lparr>stats := record_malformed (stats gw) 0\<rparr> in
      if err = CRC_MISMATCH then
        publish_event (gw1\<lparr>stats := record_crc_fail (stats gw1) 0\<rparr>) EVT_CRC_FAIL NETWORK WARN
      else
        publish_event gw1 EVT_FRAME_MALFORMED NETWORK WARN)"

text \<open>The switch over the tracker's result.\<close>

definition handle_seq_result :: "Gateway \<Rightarrow> TelemetryHeader \<Rightarrow> SeqEvent \<Rightarrow> Gateway" where
  "handle_seq_result gw h ev =
     (case result ev of
        FIRST \<Rightarrow> publish_event gw EVT_SOURCE_ONLINE NETWORK INFO
      | GAP \<Rightarrow>
          publish_event (gw\<lparr>stats := record_gap (stats gw) (h_src_id h) (gap_size ev)\<rparr>)
            EVT_SEQ_GAP NETWORK WARN
      | REORDER \<Rightarrow>
          publish_event (gw\<lparr>stats := record_reorder (stats gw) (h_src_id h)\<rparr>)
            EVT_SEQ_REORDER NETWORK WARN
      | DUPLICATE \<Rightarrow> gw\<lparr>stats := record_duplicate (stats gw) (h_src_id h)\<rparr>
      | SEQ_OK \<Rightarrow> gw)"

text \<open>The switch over the message type; \<open>payload\<close> is the buffer from \<open>payload_ptr\<close> on.\<close>

definition dispatch_payload :: "Gateway \<Rightarrow> TelemetryHeader \<Rightarrow> u8 list \<Rightarrow> Gateway" where
  "dispatch_payload gw h payload =
     (let mt = h_msg_type h; n = unat (h_payload_len h) in
      if mt = MsgType_TRACK then
        (if n \<ge> sizeof_TrackPayload then publish_event gw EVT_TRACK_UPDATE TRACKING DEBUG else gw)
      else if mt = MsgType_PLOT then
        (if n \<ge> sizeof_PlotPayload then publish_event gw EVT_TRACK_NEW TRACKING DEBUG else gw)
      else if mt = MsgType_HEARTBEAT then
        (if n \<ge> sizeof_HeartbeatPayload then
           (let st = payload ! heartbeat_state_offset in
            if st = SubsystemState_DEGRADED then
              publish_event gw EVT_HEARTBEAT_DEGRADE HEALTH WARN
            else if st = SubsystemState_ERROR \<or> st = SubsystemState_OFFLINE then
              publish_event gw EVT_HEARTBEAT_ERROR HEALTH ALARM
            else publish_event gw EVT_HEARTBEAT_OK HEALTH DEBUG)
         else gw)
      else if mt = MsgType_ENGAGEMENT then
        (if n \<ge> sizeof_EngagementPayload then
           publish_event gw EVT_WEAPON_STATUS EventCategory.ENGAGEMENT INFO
         else gw)
      else gw)"

text \<open>\<open>process_frame\<close>. The local \<open>ParsedFrame parsed\<close> is default-constructed (its
  header is not initialised in the source; the model starts it at zero, and
  \<open>parse_frame\<close> overwrites it before it is read).\<close>

definition process_frame :: "Gateway \<Rightarrow> u8 list \<Rightarrow> u64 \<Rightarrow> Gateway" where
  "process_frame gw frame rx_timestamp_ns =
     (let gw0 = (if cfg_record_enabled gw \<and> rec_is_open (recorder gw)
                 then gw\<lparr>recorder := recorder_record (recorder gw) rx_timestamp_ns frame\<rparr>
                 else gw);
          (err, parsed) = parse_frame frame (cfg_crc_enabled gw0) ParsedFrame_default
      in if err \<noteq> PARSE_OK then handle_parse_error gw0 err
         else
           let h = header parsed;
               (seq_result, t') = track (tracker gw0) (h_src_id h) (h_seq h);
               gw1 = gw0\<lparr>tracker := t'\<rparr>;
               gw2 = gw1\<lparr>stats := record_rx (stats gw1) (h_src_id h) (h_seq h) rx_timestamp_ns\<rparr>;
               gw3 = handle_seq_result gw2 h seq_result
           in dispatch_payload gw3 h
                (case payload_ptr parsed of None \<Rightarrow> [] | Some off \<Rightarrow> drop off frame))"

definition Gateway_new :: "bool \<Rightarrow> Gateway" where
  "Gateway_new crc_on =
     \<lparr>cfg_crc_enabled = crc_on, cfg_record_enabled = False, tracker = SequenceTracker_new,
      stats = StatsManager_new, events = [],
      recorder = \<lparr>rec_is_open = False, rec_frames = []\<rparr>\<rparr>"

text \<open>A PLOT header from source 7 with an empty payload, followed by four zero bytes where
  the CRC should be.\<close>

definition crc_fail_frame :: "u8 list" where
  "crc_fail_frame = [1, 1, 7, 0, 0, 0, 0, 0, 0, 0, 0, 0, 0, 0, 0, 0, 0, 0] @ [0, 0, 0, 0]"

section \<open>Control-channel framer (control\_node/tcp\_framer.h, .cpp)\<close>

text \<open>Payloads are \<open>std::string\<close>s used as byte strings; the model keeps them as byte
  lists.\<close>

record TcpFramer =
  buffer :: "u8 list"
  ready_frames :: "u8 list list"

definition TcpFramer_new :: TcpFramer where
  "TcpFramer_new = \<lparr>buffer = [], ready_frames = []\<rparr>"

definition MAX_FRAME_LEN :: u32 where
  "MAX_FRAME_LEN = 10 * 1024 * 1024"

text \<open>\<open>encode\<close>: the length is cast to 32 bits and written most significant byte
  first, followed by the payload.\<close>

definition encode :: "u8 list \<Rightarrow> u8 list" where
  "encode data =
     (let be_len = (of_nat (length data) :: u32) in
      [ucast (drop_bit 24 be_len AND 0xFF),
       ucast (drop_bit 16 be_len AND 0xFF),
       ucast (drop_bit 8 be_len AND 0xFF),
       ucast (be_len AND 0xFF)] @ data)"

text \<open>The big-endian length at the head of the buffer; read only when the buffer holds
  at least four bytes.\<close>

definition read_frame_len :: "u8 list \<Rightarrow> u32" where
  "read_frame_len buf =
     push_bit 24 (ucast (buf ! 0)) OR push_bit 16 (ucast (buf ! 1)) OR
     push_bit 8 (ucast (buf ! 2)) OR ucast (buf ! 3)"

lemma unat_MAX_FRAME_LEN: "unat MAX_FRAME_LEN = 10485760"
  by (simp add: MAX_FRAME_LEN_def)

lemma unat_4_plus: "n \<le> MAX_FRAME_LEN \<Longrightarrow> unat (4 + n) = 4 + unat n"
proof -
  assume "n \<le> MAX_FRAME_LEN"
  then have "unat n \<le> 10485760"
    by (simp add: word_le_nat_alt unat_MAX_FRAME_LEN)
  then show ?thesis
    by (simp add: unat_word_ariths)
qed

text \<open>One pass of the loop body of \<open>try_extract_frames\<close> that extracts a frame: the
  payload is read from behind the four length bytes, then \<open>4 + frame_len\<close> bytes
  (a 32-bit sum) are popped from the front.\<close>

definition extract_one :: "TcpFramer \<Rightarrow> TcpFramer" where
  "extract_one f =
     (let frame_len = read_frame_len (buffer f);
          payload = take (unat frame_len) (drop 4 (buffer f))
      in f\<lparr>buffer := drop (unat (4 + frame_len)) (buffer f),
           ready_frames := ready_frames f @ [payload]\<rparr>)"

lemma extract_one_shrinks:
  "4 \<le> length (buffer f) \<Longrightarrow> read_frame_len (buffer f) \<le> MAX_FRAME_LEN \<Longrightarrow>
   length (buffer (extract_one f)) < length (buffer f)"
  by (simp add: extract_one_def Let_def unat_4_plus)

function try_extract_frames :: "TcpFramer \<Rightarrow> TcpFramer" where
  "try_extract_frames f =
     (if 4 \<le> length (buffer f) then
        if read_frame_len (buffer f) > MAX_FRAME_LEN then f\<lparr>buffer := []\<rparr>
        else if length (buffer f) < unat (4 + read_frame_len (buffer f)) then f
        else try_extract_frames (extract_one f)
      else f)"
  by pat_completeness auto
termination
  by (relation "measure (\<lambda>f. length (buffer f))") (auto simp add: extract_one_shrinks not_less)

declare try_extract_frames.simps [simp del]

definition feed :: "TcpFramer \<Rightarrow> u8 list \<Rightarrow> TcpFramer" where
  "feed f data = try_extract_frames (f\<lparr>buffer := buffer f @ data\<rparr>)"

definition has_frame :: "TcpFramer \<Rightarrow> bool" where
  "has_frame f = (ready_frames f \<noteq> [])"

definition pop_frame :: "TcpFramer \<Rightarrow> u8 list \<times> TcpFramer" where
  "pop_frame f =
     (case ready_frames f of
        [] \<Rightarrow> ([], f)
      | frame # rest \<Rightarrow> (frame, f\<lparr>ready_frames := rest\<rparr>))"

text \<open>Feeding the chunks of a stream one after the other.\<close>

fun feed_all :: "TcpFramer \<Rightarrow> u8 list list \<Rightarrow> TcpFramer" where
  "feed_all f [] = f"
| "feed_all f (c # cs) = feed_all (feed f c) cs"

text \<open>Draining: \<open>pop_frame\<close> while \<open>has_frame\<close>.\<close>

function drain :: "TcpFramer \<Rightarrow> u8 list list \<times> TcpFramer" where
  "drain f =
     (if has_frame f then
        (let (frame, f') = pop_frame f; (frames, f'') = drain f' in (frame # frames, f''))
      else ([], f))"
  by pat_completeness auto
termination
  by (relation "measure (\<lambda>f. length (ready_frames f))")
     (auto simp add: has_frame_def pop_frame_def split: list.splits)

declare drain.simps [simp del]

text \<open>The bound under which \<open>try_extract_frames\<close> accepts a length prefix.\<close>

definition valid_payload :: "u8 list \<Rightarrow> bool" where
  "valid_payload p = (length p \<le> 10 * 1024 * 1024)"



section \<open>Fault injector (sensor\_sim/fault\_injector.h, .cpp)\<close>

text \<open>The percentages are \<open>double\<close>s and the draws come from \<open>std::mt19937\<close> through the
  distributions of the \<open>random\<close> header; neither is code of this repository. They are taken as
  parameters: \<open>'d\<close> stands for \<open>double\<close>, \<open>'g\<close> for the engine's state, and the record
  below holds the library operations \<open>apply\<close> uses. Each draw returns the value and the
  engine's next state.\<close>

record ('g, 'd) Random =
  seed_engine :: "u32 \<Rightarrow> 'g"
  draw_pct :: "'g \<Rightarrow> 'd \<times> 'g"
  draw_int :: "nat \<Rightarrow> nat \<Rightarrow> 'g \<Rightarrow> nat \<times> 'g"
  less_double :: "'d \<Rightarrow> 'd \<Rightarrow> bool"
  zero_double :: 'd

record 'd FaultConfig =
  loss_pct :: 'd
  reorder_pct :: 'd
  duplicate_pct :: 'd
  corrupt_pct :: 'd

record FaultStats =
  dropped :: u32
  reordered :: u32
  duplicated :: u32
  corrupted :: u32

definition FaultStats_default :: FaultStats where
  "FaultStats_default = \<lparr>dropped = 0, reordered = 0, duplicated = 0, corrupted = 0\<rparr>"

record ('g, 'd) FaultInjector =
  fi_config :: "'d FaultConfig"
  fi_rng :: 'g
  fi_last_stats :: FaultStats


text \<open>Stage 1, corruption: one percentage draw per frame (drawn before the emptiness test),
  and for a chosen non-empty frame one index draw and an xor with \<open>0xFF\<close>.\<close>

fun corrupt_frames ::
  "('g, 'd) Random \<Rightarrow> 'd \<Rightarrow> u8 list list \<Rightarrow> 'g \<Rightarrow> FaultStats
     \<Rightarrow> u8 list list \<times> 'g \<times> FaultStats" where
  "corrupt_frames R c [] g st = ([], g, st)"
| "corrupt_frames R c (frame # rest) g st =
     (let (x, g1) = draw_pct R g in
      if less_double R x c \<and> frame \<noteq> [] then
        (let (i, g2) = draw_int R 0 (length frame - 1) g1;
             frame' = frame[i := frame ! i XOR 0xFF];
             (rest', g3, st') = corrupt_frames R c rest g2 (st\<lparr>corrupted := corrupted st + 1\<rparr>)
         in (frame' # rest', g3, st'))
      else
        (let (rest', g3, st') = corrupt_frames R c rest g1 st
         in (frame # rest', g3, st')))"

text \<open>Stage 2, duplication: first the copies are chosen, one draw per frame; then each
  copy is inserted at a drawn position of the growing batch.\<close>

fun choose_extras ::
  "('g, 'd) Random \<Rightarrow> 'd \<Rightarrow> u8 list list \<Rightarrow> 'g \<Rightarrow> FaultStats
     \<Rightarrow> u8 list list \<times> 'g \<times> FaultStats" where
  "choose_extras R c [] g st = ([], g, st)"
| "choose_extras R c (frame # rest) g st =
     (let (x, g1) = draw_pct R g in
      if less_double R x c then
        (let (extras, g2, st') =
               choose_extras R c rest g1 (st\<lparr>duplicated := duplicated st + 1\<rparr>)
         in (frame # extras, g2, st'))
      else choose_extras R c rest g1 st)"

fun insert_extras ::
  "('g, 'd) Random \<Rightarrow> u8 list list \<Rightarrow> u8 list list \<Rightarrow> 'g \<Rightarrow> u8 list list \<times> 'g" where
  "insert_extras R frames [] g = (frames, g)"
| "insert_extras R frames (dup # extras) g =
     (let (pos, g1) = draw_int R 0 (length frames) g
      in insert_extras R (take pos frames @ [dup] @ drop pos frames) extras g1)"

text \<open>Stage 3, loss: \<open>remove_if\<close> with one draw per frame, in order.\<close>

fun drop_frames ::
  "('g, 'd) Random \<Rightarrow> 'd \<Rightarrow> u8 list list \<Rightarrow> 'g \<Rightarrow> FaultStats
     \<Rightarrow> u8 list list \<times> 'g \<times> FaultStats" where
  "drop_frames R c [] g st = ([], g, st)"
| "drop_frames R c (frame # rest) g st =
     (let (x, g1) = draw_pct R g in
      if less_double R x c then drop_frames R c rest g1 (st\<lparr>dropped := dropped st + 1\<rparr>)
      else
        (let (rest', g2, st') = drop_frames R c rest g1 st
         in (frame # rest', g2, st')))"

text \<open>Stage 4, reorder: the index loop swaps a pair and skips it.\<close>

function reorder_frames ::
  "('g, 'd) Random \<Rightarrow> 'd \<Rightarrow> u8 list list \<Rightarrow> nat \<Rightarrow> 'g \<Rightarrow> FaultStats
     \<Rightarrow> u8 list list \<times> 'g \<times> FaultStats" where
  "reorder_frames R c frames i g st =
     (if i + 1 < length frames then
        (let (x, g1) = draw_pct R g in
         if less_double R x c then
           reorder_frames R c (frames[i := frames ! (i + 1), i + 1 := frames ! i]) (i + 2) g1
             (st\<lparr>reordered := reordered st + 1\<rparr>)
         else reorder_frames R c frames (i + 1) g1 st)
      else (frames, g, st))"
  by pat_completeness auto

termination
  by (relation "measure (\<lambda>(R, c, frames, i, g, st). length frames - i)") auto

declare reorder_frames.simps [simp del]

text \<open>\<open>FaultInjector::apply\<close>: the statistics are reset first; an empty batch returns at
  once; then the four stages run in the fixed order, each only when its percentage is
  greater than \<open>0.0\<close>. The batch is modified in place; the model returns it.\<close>

definition FaultInjector_apply ::
  "('g, 'd) Random \<Rightarrow> ('g, 'd) FaultInjector \<Rightarrow> u8 list list
     \<Rightarrow> u8 list list \<times> ('g, 'd) FaultInjector" where
  "FaultInjector_apply R fi frames =
     (let st0 = FaultStats_default in
      if frames = [] then (frames, fi\<lparr>fi_last_stats := st0\<rparr>)
      else
        let c = fi_config fi;
            g0 = fi_rng fi;
            (f1, g1, st1) =
              (if less_double R (zero_double R) (corrupt_pct c)
               then corrupt_frames R (corrupt_pct c) frames g0 st0
               else (frames, g0, st0));
            (f2, g2, st2) =
              (if less_double R (zero_double R) (duplicate_pct c) then
                 (let (extras, ga, sa) = choose_extras R (duplicate_pct c) f1 g1 st1;
                      (fb, gb) = insert_extras R f1 extras ga
                  in (fb, gb, sa))
               else (f1, g1, st1));
            (f3, g3, st3) =
              (if less_double R (zero_double R) (loss_pct c)
               then drop_frames R (loss_pct c) f2 g2 st2
               else (f2, g2, st2));
            (f4, g4, st4) =
              (if less_double R (zero_double R) (reorder_pct c) \<and> length f3 \<ge> 2
               then reorder_frames R (reorder_pct c) f3 0 g3 st3
               else (f3, g3, st3))
        in (f4, fi\<lparr>fi_rng := g4, fi_last_stats := st4\<rparr>))"



text \<open>The prior calls that draw from the engine: those on a non-empty batch.\<close>

definition drawing_calls :: "u8 list list list \<Rightarrow> u8 list list list" where
  "drawing_calls history = filter (\<lambda>batch. batch \<noteq> []) history"

text \<open>The engine after one percentage draw.\<close>

definition next_engine :: "('g, 'd) Random \<Rightarrow> 'g \<Rightarrow> 'g" where
  "next_engine R g = snd (draw_pct R g)"







section \<open>Sequence tracker: results\<close>

text \<open>Claim C1: feeding (1,0), (1,1), (1,2), (1,5), (1,3) to a freshly constructed
  tracker returns FIRST, OK, OK, GAP with gap size 2, expected 3 and actual 5, and then
  REORDER with expected 6 and actual 3.\<close>

theorem track_gap_then_reorder:
  "fst (track_all SequenceTracker_new [(1,0), (1,1), (1,2), (1,5), (1,3)]) =
     [mk_event FIRST 1 0 0 0,
      mk_event SEQ_OK 1 1 1 0,
      mk_event SEQ_OK 1 2 2 0,
      mk_event GAP 1 3 5 2,
      mk_event REORDER 1 6 3 0]"
  by (simp add: track_def track_source_def SequenceTracker_new_def SourceState_default_def
        mk_event_def WINDOW_SIZE_def)

subsection \<open>Re-sending the first sequence number\<close>

lemma track_eq: "track t sid seq =
   (fst (track_source (source_of t sid) sid seq),
    t\<lparr>sources := (sources t)(sid \<mapsto> snd (track_source (source_of t sid) sid seq))\<rparr>)"
  by (simp add: track_def source_of_def Let_def split: prod.splits)

lemma track_other_source: "sid' \<noteq> sid \<Longrightarrow> source_of (snd (track t sid' q)) sid = source_of t sid"
  by (simp add: track_eq source_of_def)

lemma snd_track_all_Cons:
  "snd (track_all t (c # cs)) = snd (track_all (snd (track t (fst c) (snd c))) cs)"
  by (cases c) (simp split: prod.splits)

lemma track_all_other_sources:
  "\<forall>c \<in> set others. fst c \<noteq> sid \<Longrightarrow>
   source_of (snd (track_all t others)) sid = source_of t sid"
proof (induction others arbitrary: t)
  case Nil
  then show ?case by simp
next
  case (Cons c cs)
  from Cons.prems have ne: "fst c \<noteq> sid" and rest: "\<forall>c \<in> set cs. fst c \<noteq> sid" by auto
  show ?case
    unfolding snd_track_all_Cons
    using Cons.IH [OF rest] ne by (simp add: track_other_source)
qed

lemma source_after_track: "source_of (snd (track t sid seq)) sid = snd (track_source (source_of t sid) sid seq)"
  by (simp add: track_eq source_of_def)

lemma succ_neq: "(seq::u32) \<noteq> seq + 1"
  by simp

lemma succ_less_iff: "((seq::u32) + 1 < seq) = (seq = - 1)"
  using inc_less_eq_iff word_order.not_eq_extremum by fastforce

lemma track_source_first:
  "\<not> initialized s \<Longrightarrow>
   track_source s sid seq =
     (mk_event FIRST sid 0 seq 0,
      s\<lparr>initialized := True, next_expected := seq + 1, seen_window := 0\<rparr>)"
  by (simp add: track_source_def)

lemma track_source_resend_first:
  assumes "initialized s" and "next_expected s = seq + 1" and "seen_window s = 0"
  shows "track_source s sid seq =
     (if seq = - 1 then
        (mk_event GAP sid 0 seq (- 1), s\<lparr>seen_window := set_bit 63 0, next_expected := 0\<rparr>)
      else
        (mk_event REORDER sid (seq + 1) seq 0, s\<lparr>seen_window := set_bit 63 0\<rparr>))"
proof (cases "seq = - 1")
  case True
  have pos: "(0::u32) < - 1" by (simp add: word_gt_0)
  from assms True pos show ?thesis
    by (simp add: track_source_def WINDOW_SIZE_def Let_def)
next
  case False
  then have nlt: "\<not> seq + 1 < seq" by (simp add: succ_less_iff)
  from assms False nlt show ?thesis
    by (simp add: track_source_def WINDOW_SIZE_def Let_def)
qed

lemma track_source_resend_again:
  assumes "initialized s" and "next_expected s = seq + 1" and "seen_window s = set_bit 63 0"
    and "seq \<noteq> - 1"
  shows "track_source s sid seq = (mk_event DUPLICATE sid (seq + 1) seq 0, s)"
proof -
  from assms(4) have nlt: "\<not> seq + 1 < seq" by (simp add: succ_less_iff)
  have b: "bit (set_bit 63 (0::u64)) 63" by (simp add: bit_simps)
  from assms nlt b show ?thesis
    by (simp add: track_source_def WINDOW_SIZE_def Let_def)
qed

text \<open>Directly after FIRST (calls for other sources may come in between), a re-send of the
  first number is REORDER, or GAP when the number is \<open>2^32 - 1\<close> and \<open>next_expected\<close> has
  wrapped to 0. The REORDER marks the bit, so one more re-send right after it is
  DUPLICATE.\<close>

lemma first_seq_resend_directly:
  assumes uninit: "\<not> is_initialized t sid"
      and others: "\<forall>c \<in> set others. fst c \<noteq> sid"
  shows "let (e1, t1) = track t sid seq;
             (es, t2) = track_all t1 others;
             (e2, t3) = track t2 sid seq;
             (e3, t4) = track t3 sid seq
         in result e1 = FIRST \<and>
            result e2 = (if seq = - 1 then GAP else REORDER) \<and>
            (seq \<noteq> - 1 \<longrightarrow> result e3 = DUPLICATE)"
proof -
  define s0 where "s0 = source_of t sid"
  define t1 where "t1 = snd (track t sid seq)"
  define t2 where "t2 = snd (track_all t1 others)"
  define t3 where "t3 = snd (track t2 sid seq)"
  define s1 where "s1 = s0\<lparr>initialized := True, next_expected := seq + 1, seen_window := 0\<rparr>"
  from uninit have u: "\<not> initialized s0" by (simp add: is_initialized_def s0_def)
  have e1: "fst (track t sid seq) = mk_event FIRST sid 0 seq 0"
    using u by (simp add: track_eq track_source_first s0_def)
  have st1: "source_of t1 sid = s1"
    using u by (simp add: t1_def source_after_track track_source_first s0_def s1_def)
  have st2: "source_of t2 sid = s1"
    using track_all_other_sources [OF others] st1 by (simp add: t2_def)
  have s1_props: "initialized s1" "next_expected s1 = seq + 1" "seen_window s1 = 0"
    by (simp_all add: s1_def)
  note r2 = track_source_resend_first [OF s1_props, of sid]
  have e2: "result (fst (track t2 sid seq)) = (if seq = - 1 then GAP else REORDER)"
    by (simp add: track_eq st2 r2 mk_event_def)
  have e3: "result (fst (track t3 sid seq)) = DUPLICATE" if ne: "seq \<noteq> - 1"
  proof -
    have st3: "source_of t3 sid = s1\<lparr>seen_window := set_bit 63 0\<rparr>"
      using ne by (simp add: t3_def source_after_track st2 r2)
    have "track_source (s1\<lparr>seen_window := set_bit 63 0\<rparr>) sid seq =
            (mk_event DUPLICATE sid (seq + 1) seq 0, s1\<lparr>seen_window := set_bit 63 0\<rparr>)"
      by (rule track_source_resend_again) (simp_all add: s1_props ne)
    then show ?thesis by (simp add: track_eq st3 mk_event_def)
  qed
  from e1 e2 e3 show ?thesis
    by (simp add: t1_def t2_def t3_def mk_event_def Let_def case_prod_beta)
qed

text \<open>As long as no call for the source is classified REORDER, the window holds at most
  bit 63, which stands for the number received last.\<close>

lemma bit_set_zero: "bit (set_bit m (0::u64)) n = (n = m \<and> m < 64)"
  by (auto simp add: bit_simps)

lemma top_bit_numeral: "(9223372036854775808::u64) = set_bit 63 0"
  by simp

lemma bit_top: "bit (9223372036854775808::u64) n = (n = 63)"
  by (simp only: top_bit_numeral bit_set_zero) simp

lemma push_bit_top:
  assumes "0 < k"
  shows "push_bit k (9223372036854775808::u64) = 0"
proof (rule bit_word_eqI)
  fix n
  assume "n < LENGTH(64)"
  have "bit (push_bit k (9223372036854775808::u64)) n \<Longrightarrow> n - k = 63 \<and> k \<le> n"
    by (simp only: bit_push_bit_iff bit_top)
  with assms \<open>n < LENGTH(64)\<close> have "\<not> bit (push_bit k (9223372036854775808::u64)) n"
    by auto
  then show "bit (push_bit k (9223372036854775808::u64)) n = bit (0::u64) n"
    by simp
qed

lemma shifted_window:
  assumes "w = 0 \<or> w = (9223372036854775808::u64)"
  shows "set_bit 63 (push_bit k w) = 9223372036854775808"
proof (cases "k = 0")
  case True
  with assms show ?thesis by auto
next
  case False
  with assms show ?thesis by (auto simp add: push_bit_top)
qed

lemma first_unmarked_alt:
  "first_unmarked s st =
     (initialized st \<and>
      (seen_window st = 0 \<or>
       (seen_window st = 9223372036854775808 \<and> next_expected st \<noteq> s + 1)))"
  by (simp add: first_unmarked_def)

lemma first_unmarked_step:
  assumes inv: "first_unmarked s st"
      and ne: "q \<noteq> s"
      and nr: "result (fst (track_source st sid q)) \<noteq> REORDER"
  shows "first_unmarked s (snd (track_source st sid q))"
proof -
  from inv have i: "initialized st"
    and w: "seen_window st = 0 \<or> seen_window st = 9223372036854775808"
    by (auto simp add: first_unmarked_alt)
  from ne have q1: "q + 1 \<noteq> s + 1" by simp
  show ?thesis
  proof (cases "q = next_expected st")
    case True
    have "snd (track_source st sid q) =
            st\<lparr>seen_window := set_bit 63 (push_bit 1 (seen_window st)), next_expected := q + 1\<rparr>"
      using i True by (simp add: track_source_def WINDOW_SIZE_def)
    with q1 shifted_window [OF w, of 1] show ?thesis
      by (simp add: first_unmarked_alt i)
  next
    case False
    note neq = this
    show ?thesis
    proof (cases "q > next_expected st")
      case True
      define k where "k = unat (q - next_expected st + 1)"
      have "snd (track_source st sid q) =
              st\<lparr>seen_window := set_bit 63 (if 64 \<le> k then 0 else push_bit k (seen_window st)),
                 next_expected := q + 1\<rparr>"
        using i neq True by (simp add: track_source_def WINDOW_SIZE_def Let_def k_def)
      moreover have "set_bit 63 (if 64 \<le> k then 0 else push_bit k (seen_window st))
                       = 9223372036854775808"
        using shifted_window [OF w, of k] by simp
      ultimately show ?thesis using q1 by (simp add: first_unmarked_alt i)
    next
      case False
      with i neq nr have "snd (track_source st sid q) = st"
        by (simp add: track_source_def WINDOW_SIZE_def Let_def mk_event_def split: if_splits)
      with inv show ?thesis by simp
    qed
  qed
qed

lemma first_unmarked_resend:
  assumes inv: "first_unmarked s st"
  shows "result (fst (track_source st sid s)) \<noteq> DUPLICATE"
proof
  assume d: "result (fst (track_source st sid s)) = DUPLICATE"
  from inv have i: "initialized st" by (simp add: first_unmarked_alt)
  from d i have b: "bit (seen_window st) (64 - unat (next_expected st - s))"
    and le: "unat (next_expected st - s) \<le> 64"
    by (auto simp add: track_source_def WINDOW_SIZE_def Let_def mk_event_def split: if_splits)
  from b inv have w: "seen_window st = 9223372036854775808" and n1: "next_expected st \<noteq> s + 1"
    by (auto simp add: first_unmarked_alt)
  from b have "64 - unat (next_expected st - s) = 63" by (simp only: w bit_top)
  with le have "unat (next_expected st - s) = 1" by arith
  then have "next_expected st - s = 1" by (simp add: word_unat_eq_iff)
  then have "next_expected st = s + 1" by (simp add: algebra_simps)
  with n1 show False by simp
qed


lemma track_result: "fst (track t sid q) = fst (track_source (source_of t sid) sid q)"
  by (simp add: track_eq)

lemma first_unmarked_run:
  assumes "first_unmarked s (source_of t sid)"
      and "no_reorder_between t sid s calls"
  shows "first_unmarked s (source_of (snd (track_all t calls)) sid)"
  using assms
proof (induction calls arbitrary: t)
  case Nil
  then show ?case by simp
next
  case (Cons c cs)
  obtain sid' q where c: "c = (sid', q)" by (cases c)
  define t' where "t' = snd (track t sid' q)"
  from Cons.prems(2) have here: "sid' \<noteq> sid \<or> (q \<noteq> s \<and> result (fst (track t sid' q)) \<noteq> REORDER)"
    and rest: "no_reorder_between t' sid s cs"
    by (simp_all add: c t'_def case_prod_beta Let_def)
  have "first_unmarked s (source_of t' sid)"
  proof (cases "sid' = sid")
    case False
    then show ?thesis using Cons.prems(1) by (simp add: t'_def track_other_source)
  next
    case True
    with here have "q \<noteq> s"
      and "result (fst (track_source (source_of t sid) sid q)) \<noteq> REORDER"
      by (simp_all add: track_result)
    from first_unmarked_step [OF Cons.prems(1) this]
    show ?thesis by (simp add: t'_def True source_after_track)
  qed
  from Cons.IH [OF this rest] show ?case
    by (simp only: snd_track_all_Cons c t'_def fst_conv snd_conv)
qed

text \<open>Claim C3, as the code has it: the FIRST transition clears the window and does not
  mark the first observed sequence number. So the first later track call that re-sends
  that number is never classified DUPLICATE, provided no call for that source in between
  was classified REORDER; calls classified OK, GAP or DUPLICATE and calls for other
  sources may come in between. Later re-sends can be DUPLICATE.\<close>

theorem first_resend_not_duplicate:
  assumes uninit: "\<not> is_initialized t sid"
      and quiet: "no_reorder_between (snd (track t sid seq)) sid seq calls"
  shows "result (fst (track t sid seq)) = FIRST \<and>
         result (fst (track (snd (track_all (snd (track t sid seq)) calls)) sid seq)) \<noteq> DUPLICATE"
proof -
  from uninit have u: "\<not> initialized (source_of t sid)" by (simp add: is_initialized_def)
  have e1: "result (fst (track t sid seq)) = FIRST"
    using u by (simp add: track_result track_source_first mk_event_def)
  have "source_of (snd (track t sid seq)) sid =
          (source_of t sid)\<lparr>initialized := True, next_expected := seq + 1, seen_window := 0\<rparr>"
    using u by (simp add: source_after_track track_source_first)
  then have "first_unmarked seq (source_of (snd (track t sid seq)) sid)"
    by (simp add: first_unmarked_def)
  from first_unmarked_run [OF this quiet]
  have "first_unmarked seq (source_of (snd (track_all (snd (track t sid seq)) calls)) sid)" .
  from first_unmarked_resend [OF this]
  have "result (fst (track (snd (track_all (snd (track t sid seq)) calls)) sid seq)) \<noteq> DUPLICATE"
    by (simp add: track_result)
  with e1 show ?thesis by simp
qed

text \<open>After the run \<open>quiet_calls\<close> the re-send of 0 is classified REORDER.\<close>

theorem first_resend_not_duplicate_witness:
  "map result (fst (track_all (snd (track SequenceTracker_new 1 0)) quiet_calls))
     = [SEQ_OK, FIRST, SEQ_OK, GAP, DUPLICATE] \<and>
   result (fst (track (snd (track_all (snd (track SequenceTracker_new 1 0)) quiet_calls)) 1 0))
     = REORDER"
proof -
  have a: "\<not> is_initialized SequenceTracker_new 1"
    by (simp add: is_initialized_def source_of_def SequenceTracker_new_def SourceState_default_def)
  have b: "no_reorder_between (snd (track SequenceTracker_new 1 0)) 1 0 quiet_calls"
    by (simp add: quiet_calls_def track_def track_source_def SequenceTracker_new_def
          SourceState_default_def mk_event_def WINDOW_SIZE_def)
  have c: "map result (fst (track_all (snd (track SequenceTracker_new 1 0)) quiet_calls))
     = [SEQ_OK, FIRST, SEQ_OK, GAP, DUPLICATE]"
    by (simp add: quiet_calls_def track_def track_source_def SequenceTracker_new_def
          SourceState_default_def mk_event_def WINDOW_SIZE_def)
  have d: "result (fst (track (snd (track_all (snd (track SequenceTracker_new 1 0)) quiet_calls)) 1 0))
     = REORDER"
    by (simp add: quiet_calls_def track_def track_source_def SequenceTracker_new_def
          SourceState_default_def mk_event_def WINDOW_SIZE_def)
  from first_resend_not_duplicate [OF a b] c d show ?thesis by simp
qed

text \<open>Claim C3 as stated fails: the second re-send of the first sequence number is
  classified DUPLICATE.\<close>

theorem first_seq_duplicate_counterexample:
  "map result (fst (track_all SequenceTracker_new [(1,0), (1,0), (1,0)])) =
     [FIRST, REORDER, DUPLICATE]"
  by (simp add: track_def track_source_def SequenceTracker_new_def SourceState_default_def
        mk_event_def WINDOW_SIZE_def)

text \<open>The exclusion of REORDER matters. \<open>track\<close> shifts the window towards the higher
  indices on OK and GAP, so a bit set by a REORDER of an older number moves to the position
  of a newer one: here the first re-send of the first number 10 is already classified
  DUPLICATE.\<close>

lemma first_resend_after_older_reorder:
  "map result (fst (track_all SequenceTracker_new [(1,10), (1,8), (1,11), (1,10)])) =
     [FIRST, REORDER, SEQ_OK, DUPLICATE]"
  by (simp add: track_def track_source_def SequenceTracker_new_def SourceState_default_def
        mk_event_def WINDOW_SIZE_def)

section \<open>CRC engine: results\<close>

lemma table_entries_nth: "table_entries ! unat (idx :: u8) = make_crc_entry (ucast idx)"
proof -
  have "unat idx < 256" using unsigned_less [of idx, where ?'a = nat] by simp
  then show ?thesis by (simp add: table_entries_def)
qed

lemma crc_byte_eq:
  "crc_byte c b = drop_bit 8 c XOR make_crc_entry (ucast (ucast (c XOR ucast b) :: u8))"
  by (simp add: crc_byte_def table_entries_nth)

lemma crc_loop_append: "crc_loop c (a @ b) = crc_loop (crc_loop c a) b"
  by (induction a arbitrary: c) simp_all

lemma funpow_8: "(f ^^ 8) x = f (f (f (f (f (f (f (f x)))))))"
  by (simp add: eval_nat_numeral)

lemma crc_check_steps:
  "crc_byte 0xFFFFFFFF 0x31 = 0x7C231048"
  "crc_byte 0x7C231048 0x32 = 0xB0ACBB32"
  "crc_byte 0xB0ACBB32 0x33 = 0x77B79C2D"
  "crc_byte 0x77B79C2D 0x34 = 0x641C1F5C"
  "crc_byte 0x641C1F5C 0x35 = 0x340AC5E3"
  "crc_byte 0x340AC5E3 0x36 = 0xF68D2C9E"
  "crc_byte 0xF68D2C9E 0x37 = 0xAFFC9660"
  "crc_byte 0xAFFC9660 0x38 = 0x651F2550"
  "crc_byte 0x651F2550 0x39 = 0x340BC6D9"
  by (simp_all add: crc_byte_eq make_crc_entry_def funpow_8 crc_shift_step_def)

lemma not_zero_u32: "NOT (0::u32) = 0xFFFFFFFF"
  by simp

text \<open>Claim C4: for all byte sequences \<open>a\<close> and \<open>b\<close>,
  \<open>crc32_update (crc32_update 0 a) b\<close> equals \<open>crc32\<close> of the concatenation; the CRC of
  the empty input is 0 and the CRC of the ASCII bytes "123456789" is \<open>0xCBF43926\<close>.\<close>

theorem crc32_update_composes:
  "crc32_update (crc32_update 0 a) b = crc32 (a @ b) \<and>
   crc32 [] = 0x00000000 \<and>
   crc32 [0x31, 0x32, 0x33, 0x34, 0x35, 0x36, 0x37, 0x38, 0x39] = 0xCBF43926"
proof -
  have compose: "crc32_update (crc32_update 0 a) b = crc32 (a @ b)"
    by (simp add: crc32_def crc32_update_def crc_loop_append)
  have empty: "crc32 [] = 0"
    by (simp add: crc32_def crc32_update_def)
  have "crc_loop (NOT 0) [0x31, 0x32, 0x33, 0x34, 0x35, 0x36, 0x37, 0x38, 0x39] = 0x340BC6D9"
    by (simp only: not_zero_u32 crc_loop.simps crc_check_steps)
  then have check: "crc32 [0x31, 0x32, 0x33, 0x34, 0x35, 0x36, 0x37, 0x38, 0x39] = 0xCBF43926"
    by (simp add: crc32_def crc32_update_def)
  from compose empty check show ?thesis by simp
qed

section \<open>Frame parser: results\<close>

lemma or_shift_8_add: "(ucast (a::u8) :: u16) OR push_bit 8 (ucast (b::u8)) = ucast a + push_bit 8 (ucast b)"
  by (rule disjunctive_add_eq_or [symmetric]) (auto simp add: bit_eq_iff bit_simps dest: bit_imp_le_length)

lemma unat_u8_less: "unat (a::u8) < 256"
  using unsigned_less [of a, where ?'a = nat] by simp

lemma unat_le16: "unat ((ucast (a::u8) :: u16) + push_bit 8 (ucast (b::u8))) = unat a + 256 * unat b"
proof -
  have a: "unat a < 256" and b: "unat b < 256" by (rule unat_u8_less)+
  have 1: "unat (ucast a :: u16) = unat a"
    using a by (simp add: unsigned_ucast_eq take_bit_eq_mod)
  have "unat (push_bit 8 (ucast b :: u16)) = take_bit 16 (push_bit 8 (unat (ucast b :: u16)))"
    by (simp add: unsigned_push_bit_eq)
  also have "unat (ucast b :: u16) = unat b"
    using b by (simp add: unsigned_ucast_eq take_bit_eq_mod)
  also have "take_bit 16 (push_bit 8 (unat b)) = 256 * unat b"
    using b by (simp add: take_bit_eq_mod push_bit_eq_mult)
  finally have 2: "unat (push_bit 8 (ucast b :: u16)) = 256 * unat b" .
  show ?thesis
    using a b by (simp add: unat_word_ariths 1 2)
qed

lemma take2_drop16: "18 \<le> length buf \<Longrightarrow> take 2 (drop 16 buf) = [buf ! 16, buf ! 17]"
proof -
  assume len: "18 \<le> length buf"
  have "take 2 (drop 16 buf) = take (Suc (Suc 0)) (drop 16 buf)" by (simp add: numeral_2_eq_2)
  also have "\<dots> = [drop 16 buf ! 0, drop 16 buf ! 1]"
    using len by (cases "drop 16 buf"; cases "tl (drop 16 buf)") (auto simp: drop_eq_Nil Suc_le_eq dest!: arg_cong [where f = length])
  also have "\<dots> = [buf ! 16, buf ! 17]" using len by simp
  finally show ?thesis .
qed

lemma wire_payload_len_eq:
  "18 \<le> length buf \<Longrightarrow> unat (h_payload_len (deserialize_header buf)) = wire_payload_len buf"
  by (simp add: deserialize_header_def bytes_at_def wire_payload_len_def take2_drop16
        or_shift_8_add unat_le16)

lemma header_version: "h_version (deserialize_header buf) = buf ! 0"
  by (simp add: deserialize_header_def)

lemma header_msg_type: "h_msg_type (deserialize_header buf) = buf ! 1"
  by (simp add: deserialize_header_def)

lemma one_le_u8: "(1 \<le> (x::u8)) = (x \<noteq> 0)"
  by (simp flip: not_less)

text \<open>Claim C2: for every buffer and either value of \<open>crc_enabled\<close>, the error that
  \<open>parse_frame\<close> returns is the earliest failing check in the order TOO\_SHORT,
  BAD\_VERSION, BAD\_MSG\_TYPE, PAYLOAD\_TOO\_LONG, TRUNCATED, CRC\_MISMATCH, and OK when no check
  fails.\<close>

theorem parse_frame_error_order:
  "fst (parse_frame buf crc_enabled out) = earliest_failure (spec_checks buf crc_enabled)"
proof (cases "length buf < 18")
  case True
  then show ?thesis
    by (simp add: parse_frame_def FRAME_HEADER_SIZE_def earliest_failure_def spec_checks_def)
next
  case False
  then have len: "18 \<le> length buf" by simp
  note pl = wire_payload_len_eq [OF len]
  show ?thesis
    using False
    by (auto simp add: parse_frame_def earliest_failure_def spec_checks_def Let_def pl
          header_version header_msg_type bytes_at_def
          FRAME_HEADER_SIZE_def FRAME_CRC_SIZE_def MAX_PAYLOAD_SIZE_def PROTOCOL_VERSION_def
          MsgType_PLOT_def MsgType_ENGAGEMENT_def one_le_u8)
qed

text \<open>A frame with \<open>version = 99\<close> and \<open>msg_type = 9\<close> fails two checks and reports the
  earlier one.\<close>

theorem parse_frame_error_order_witness:
  "fst (parse_frame bad_version_frame True ParsedFrame_default) = BAD_VERSION \<and>
   fst (parse_frame bad_version_frame False ParsedFrame_default) = BAD_VERSION"
  using parse_frame_error_order [of bad_version_frame True ParsedFrame_default]
        parse_frame_error_order [of bad_version_frame False ParsedFrame_default]
  by (simp add: earliest_failure_def spec_checks_def bad_version_frame_def)

text \<open>Claim C9: whenever the input holds at least 18 bytes, \<open>parse_frame\<close> has stored the
  deserialized header in the out-parameter, whatever it returns; so on each of the errors
  BAD\_VERSION, BAD\_MSG\_TYPE, PAYLOAD\_TOO\_LONG, TRUNCATED and CRC\_MISMATCH the caller's
  \<open>ParsedFrame\<close> has been written to. Only TOO\_SHORT leaves it as it was.\<close>

theorem parse_frame_overwrites_header:
  "(FRAME_HEADER_SIZE \<le> length buf \<longrightarrow>
      header (snd (parse_frame buf crc_enabled out)) = deserialize_header buf) \<and>
   (fst (parse_frame buf crc_enabled out)
      \<in> {BAD_VERSION, BAD_MSG_TYPE, PAYLOAD_TOO_LONG, TRUNCATED, CRC_MISMATCH} \<longrightarrow>
      FRAME_HEADER_SIZE \<le> length buf \<and>
      header (snd (parse_frame buf crc_enabled out)) = deserialize_header buf) \<and>
   (fst (parse_frame buf crc_enabled out) = TOO_SHORT \<longrightarrow>
      length buf < FRAME_HEADER_SIZE \<and> snd (parse_frame buf crc_enabled out) = out)"
proof -
  have short: "length buf < FRAME_HEADER_SIZE \<Longrightarrow> parse_frame buf crc_enabled out = (TOO_SHORT, out)"
    by (simp add: parse_frame_def)
  have long: "header (snd (parse_frame buf crc_enabled out)) = deserialize_header buf
      \<and> fst (parse_frame buf crc_enabled out) \<noteq> TOO_SHORT"
    if "FRAME_HEADER_SIZE \<le> length buf"
    using that by (simp add: parse_frame_def Let_def)
  show ?thesis
    using short long by (cases "length buf < FRAME_HEADER_SIZE") auto
qed

theorem parse_frame_overwrites_header_witness:
  "FRAME_HEADER_SIZE \<le> length bad_version_frame \<and>
   fst (parse_frame bad_version_frame True ParsedFrame_default) = BAD_VERSION \<and>
   header (snd (parse_frame bad_version_frame True ParsedFrame_default))
     = deserialize_header bad_version_frame \<and>
   snd (parse_frame bad_version_frame True ParsedFrame_default) \<noteq> ParsedFrame_default"
proof -
  have len: "FRAME_HEADER_SIZE \<le> length bad_version_frame"
    by (simp add: FRAME_HEADER_SIZE_def bad_version_frame_def)
  have err: "fst (parse_frame bad_version_frame True ParsedFrame_default) = BAD_VERSION"
    by (simp add: parse_frame_def Let_def FRAME_HEADER_SIZE_def bad_version_frame_def
          deserialize_header_def PROTOCOL_VERSION_def)
  have ver: "h_version (deserialize_header bad_version_frame) = 99"
    by (simp add: deserialize_header_def bad_version_frame_def)
  from parse_frame_overwrites_header [of bad_version_frame True ParsedFrame_default] len
  have hdr: "header (snd (parse_frame bad_version_frame True ParsedFrame_default))
     = deserialize_header bad_version_frame" by simp
  have v1: "h_version (header (snd (parse_frame bad_version_frame True ParsedFrame_default))) = 99"
    using hdr ver by simp
  have v0: "h_version (header ParsedFrame_default) = 0"
    by (simp add: ParsedFrame_default_def TelemetryHeader_zero_def)
  have "snd (parse_frame bad_version_frame True ParsedFrame_default) \<noteq> ParsedFrame_default"
  proof
    assume "snd (parse_frame bad_version_frame True ParsedFrame_default) = ParsedFrame_default"
    with v1 v0 show False by simp
  qed
  with len err hdr show ?thesis by simp
qed

section \<open>Statistics and gateway: results\<close>

lemma record_crc_fail_global:
  "global_stats (record_crc_fail m sid) =
     (global_stats m)\<lparr>crc_fail_total := crc_fail_total (global_stats m) + 1\<rparr>"
  by (simp add: record_crc_fail_def get_or_create_source_def put_source_def Let_def
        split: option.splits)

lemma record_crc_fail_sources:
  "source_stats (record_crc_fail m sid) =
     (source_stats m)(sid \<mapsto>
        (case source_stats m sid of
           None \<Rightarrow> SourceStats_default\<lparr>src_id := sid, malformed := 1\<rparr>
         | Some s \<Rightarrow> s\<lparr>malformed := malformed s + 1\<rparr>))"
  by (simp add: record_crc_fail_def get_or_create_source_def put_source_def Let_def
        SourceStats_default_def split: option.splits)

lemma record_malformed_global:
  "global_stats (record_malformed m sid) =
     (global_stats m)\<lparr>malformed_total := malformed_total (global_stats m) + 1\<rparr>"
  by (simp add: record_malformed_def get_or_create_source_def put_source_def Let_def
        split: option.splits)

lemma record_malformed_sources:
  "source_stats (record_malformed m sid) =
     (source_stats m)(sid \<mapsto>
        (case source_stats m sid of
           None \<Rightarrow> SourceStats_default\<lparr>src_id := sid, malformed := 1\<rparr>
         | Some s \<Rightarrow> s\<lparr>malformed := malformed s + 1\<rparr>))"
  by (simp add: record_malformed_def get_or_create_source_def put_source_def Let_def
        SourceStats_default_def split: option.splits)

text \<open>Claim C7: \<open>record_crc_fail\<close> increments the global \<open>crc_fail_total\<close> by 1 and the
  \<open>malformed\<close> counter of the per-source entry by 1; the entry exists afterwards, created
  with its \<open>src_id\<close> set when it was absent. The counters are unsigned 64-bit.\<close>

theorem record_crc_fail_counts:
  "crc_fail_total (get_global_stats (record_crc_fail m sid))
     = crc_fail_total (get_global_stats m) + 1 \<and>
   sid \<in> dom (source_stats (record_crc_fail m sid)) \<and>
   malformed (get_source_stats (record_crc_fail m sid) sid)
     = malformed (get_source_stats m sid) + 1 \<and>
   src_id (get_source_stats (record_crc_fail m sid) sid)
     = (if sid \<in> dom (source_stats m) then src_id (get_source_stats m sid) else sid)"
  by (auto simp add: get_global_stats_def get_source_stats_def record_crc_fail_global
        record_crc_fail_sources SourceStats_default_def split: option.splits)

lemma parse_frame_error_out: "fst (parse_frame buf c out) = fst (parse_frame buf c out')"
  by (simp add: parse_frame_def Let_def)

lemma handle_parse_error_stats:
  "stats (handle_parse_error gw err) =
     (if err = CRC_MISMATCH then record_crc_fail (record_malformed (stats gw) 0) 0
      else record_malformed (stats gw) 0)"
  by (simp add: handle_parse_error_def publish_event_def Let_def)

lemma handle_parse_error_tracker: "tracker (handle_parse_error gw err) = tracker gw"
  by (simp add: handle_parse_error_def publish_event_def Let_def)

lemma process_frame_failure:
  assumes "fst (parse_frame frame (cfg_crc_enabled gw) ParsedFrame_default) = err"
      and "err \<noteq> PARSE_OK"
  shows "stats (process_frame gw frame ts) =
           (if err = CRC_MISMATCH then record_crc_fail (record_malformed (stats gw) 0) 0
            else record_malformed (stats gw) 0)"
    and "tracker (process_frame gw frame ts) = tracker gw"
  using assms
  by (auto simp add: process_frame_def Let_def handle_parse_error_stats
        handle_parse_error_tracker split: prod.splits)

text \<open>Claim C8: when the buffer fails to parse, \<open>process_frame\<close> books the failure on
  source id 0, whatever the buffer's \<open>src_id\<close> bytes are: the tracker and every entry of
  another id stay as they were and \<open>malformed_total\<close> grows by 1. On CRC\_MISMATCH both
  \<open>record_malformed 0\<close> and \<open>record_crc_fail 0\<close> run, so source 0's \<open>malformed\<close> grows
  by 2 and \<open>crc_fail_total\<close> by 1; on the other errors they grow by 1 and 0.\<close>

theorem process_frame_parse_failure:
  assumes "fst (parse_frame frame (cfg_crc_enabled gw) ParsedFrame_default) = err"
      and "err \<noteq> PARSE_OK"
  shows "let gw' = process_frame gw frame ts in
     tracker gw' = tracker gw \<and>
     stats gw' = (if err = CRC_MISMATCH
                  then record_crc_fail (record_malformed (stats gw) 0) 0
                  else record_malformed (stats gw) 0) \<and>
     (\<forall>sid. sid \<noteq> 0 \<longrightarrow> source_stats (stats gw') sid = source_stats (stats gw) sid) \<and>
     malformed (get_source_stats (stats gw') 0)
       = malformed (get_source_stats (stats gw) 0) + (if err = CRC_MISMATCH then 2 else 1) \<and>
     malformed_total (get_global_stats (stats gw'))
       = malformed_total (get_global_stats (stats gw)) + 1 \<and>
     crc_fail_total (get_global_stats (stats gw'))
       = crc_fail_total (get_global_stats (stats gw)) + (if err = CRC_MISMATCH then 1 else 0)"
proof -
  note pf = process_frame_failure [OF assms, of ts]
  show ?thesis
    unfolding Let_def pf
    by (auto simp add: get_global_stats_def get_source_stats_def
          record_crc_fail_global record_crc_fail_sources
          record_malformed_global record_malformed_sources SourceStats_default_def
          split: option.splits)
qed

lemma crc_fail_frame_steps:
  "crc_byte 0xFFFFFFFF 0x01 = 0x5AFA20E4"
  "crc_byte 0x5AFA20E4 0x01 = 0xD03AECD7"
  "crc_byte 0xD03AECD7 0x07 = 0x8603E838"
  "crc_byte 0x8603E838 0x00 = 0x2884BB76"
  "crc_byte 0x2884BB76 0x00 = 0xB94E50B2"
  "crc_byte 0xB94E50B2 0x00 = 0x25D69CF0"
  "crc_byte 0x25D69CF0 0x00 = 0xBD982480"
  "crc_byte 0xBD982480 0x00 = 0xED051B04"
  "crc_byte 0xED051B04 0x00 = 0x0780C102"
  "crc_byte 0x0780C102 0x00 = 0xEE09E1ED"
  "crc_byte 0xEE09E1ED 0x00 = 0xDE559724"
  "crc_byte 0xDE559724 0x00 = 0x3CDDB146"
  "crc_byte 0x3CDDB146 0x00 = 0x9F833914"
  "crc_byte 0x9F833914 0x00 = 0x1A455744"
  "crc_byte 0x1A455744 0x00 = 0x71ABC0DE"
  "crc_byte 0x71ABC0DE 0x00 = 0x611A5413"
  "crc_byte 0x611A5413 0x00 = 0x84DF5B8A"
  "crc_byte 0x84DF5B8A 0x00 = 0x0DE9B565"
  by (simp_all add: crc_byte_eq make_crc_entry_def funpow_8 crc_shift_step_def)

lemma crc_fail_frame_error:
  "fst (parse_frame crc_fail_frame True ParsedFrame_default) = CRC_MISMATCH"
proof -
  have "crc_loop (NOT 0) [1, 1, 7, 0, 0, 0, 0, 0, 0, 0, 0, 0, 0, 0, 0, 0, 0, 0] = 0x0DE9B565"
    by (simp only: not_zero_u32 crc_loop.simps crc_fail_frame_steps)
  then have c: "crc32 [1, 1, 7, 0, 0, 0, 0, 0, 0, 0, 0, 0, 0, 0, 0, 0, 0, 0] = 0xF2164A9A"
    by (simp add: crc32_def crc32_update_def)
  have h: "deserialize_header crc_fail_frame =
      \<lparr>h_version = 1, h_msg_type = 1, h_src_id = 7, h_seq = 0, h_ts_ns = 0, h_payload_len = 0\<rparr>"
    by (simp add: deserialize_header_def crc_fail_frame_def bytes_at_def)
  show ?thesis
    by (simp add: parse_frame_def Let_def h FRAME_HEADER_SIZE_def FRAME_CRC_SIZE_def
          MAX_PAYLOAD_SIZE_def PROTOCOL_VERSION_def MsgType_PLOT_def MsgType_ENGAGEMENT_def
          bytes_at_def)
       (simp add: crc_fail_frame_def c)
qed

text \<open>A CRC-failed frame from source 7 on a fresh gateway: no entry for 7, source 0 has
  \<open>malformed = 2\<close>, both global counters are 1.\<close>

theorem process_frame_parse_failure_witness:
  "fst (parse_frame crc_fail_frame (cfg_crc_enabled (Gateway_new True)) ParsedFrame_default)
     = CRC_MISMATCH \<and>
   h_src_id (deserialize_header crc_fail_frame) = 7 \<and>
   source_stats (stats (process_frame (Gateway_new True) crc_fail_frame 0)) 7 = None \<and>
   malformed (get_source_stats (stats (process_frame (Gateway_new True) crc_fail_frame 0)) 0) = 2 \<and>
   malformed_total (get_global_stats (stats (process_frame (Gateway_new True) crc_fail_frame 0))) = 1 \<and>
   crc_fail_total (get_global_stats (stats (process_frame (Gateway_new True) crc_fail_frame 0))) = 1"
proof -
  have e: "fst (parse_frame crc_fail_frame (cfg_crc_enabled (Gateway_new True)) ParsedFrame_default)
     = CRC_MISMATCH"
    using crc_fail_frame_error by (simp add: Gateway_new_def)
  have ne: "CRC_MISMATCH \<noteq> PARSE_OK" by simp
  have s: "h_src_id (deserialize_header crc_fail_frame) = 7"
    by (simp add: deserialize_header_def crc_fail_frame_def bytes_at_def)
  have init: "stats (Gateway_new True) = StatsManager_new" by (simp add: Gateway_new_def)
  have z: "source_stats StatsManager_new 7 = None"
     "get_source_stats StatsManager_new 0 = SourceStats_default"
     "get_global_stats StatsManager_new = GlobalStats_default"
    by (simp_all add: StatsManager_new_def get_source_stats_def get_global_stats_def)
  note t = process_frame_parse_failure [OF e ne, of 0, unfolded Let_def]
  note t3 = t [THEN conjunct2, THEN conjunct2]
  have a: "source_stats (stats (process_frame (Gateway_new True) crc_fail_frame 0)) 7 = None"
    using t3 [THEN conjunct1, rule_format, of 7] by (simp add: init z)
  have b: "malformed (get_source_stats (stats (process_frame (Gateway_new True) crc_fail_frame 0)) 0) = 2"
    using t3 [THEN conjunct2, THEN conjunct1] by (simp add: init z SourceStats_default_def)
  have c: "malformed_total (get_global_stats (stats (process_frame (Gateway_new True) crc_fail_frame 0))) = 1"
    using t3 [THEN conjunct2, THEN conjunct2, THEN conjunct1]
    by (simp add: init z GlobalStats_default_def)
  have d: "crc_fail_total (get_global_stats (stats (process_frame (Gateway_new True) crc_fail_frame 0))) = 1"
    using t3 [THEN conjunct2, THEN conjunct2, THEN conjunct2]
    by (simp add: init z GlobalStats_default_def)
  from e s a b c d show ?thesis by simp
qed

text \<open>The managers the methods can build keep every entry under its own id.\<close>

lemma entries_keyed_new: "entries_keyed StatsManager_new"
  by (simp add: entries_keyed_def StatsManager_new_def)

lemma entries_keyed_record:
  assumes "entries_keyed m"
  shows "entries_keyed (record_rx m sid sq ts)"
    and "entries_keyed (record_malformed m sid)"
    and "entries_keyed (record_gap m sid gap)"
    and "entries_keyed (record_reorder m sid)"
    and "entries_keyed (record_duplicate m sid)"
    and "entries_keyed (record_crc_fail m sid)"
  using assms
  by (auto simp add: entries_keyed_def record_rx_def record_malformed_def record_gap_def
        record_reorder_def record_duplicate_def record_crc_fail_def get_or_create_source_def
        put_source_def Let_def SourceStats_default_def split: option.splits if_splits)

text \<open>Claim C10, as the code has it: for an id without an entry, \<open>get_source_stats\<close>
  answers the default-constructed \<open>SourceStats\<close>: every counter and the \<open>src_id\<close> field
  are zero. The method is \<open>const\<close> and reports no error. The answer carries the same
  counters as that of an existing entry whose counters are all zero, but an existing
  entry answers with \<open>src_id\<close> equal to its id: the two answers are the same only for
  id 0 (and an entry that is zero throughout), and differ in \<open>src_id\<close> for every other
  id.\<close>

theorem get_source_stats_unknown:
  assumes "source_stats m sid = None"
  shows "get_source_stats m sid = SourceStats_default \<and>
         src_id (get_source_stats m sid) = 0 \<and>
         counters_of (get_source_stats m sid) = (0, 0, 0, 0, 0) \<and>
         last_seq (get_source_stats m sid) = 0 \<and>
         last_ts_ns (get_source_stats m sid) = 0 \<and>
         (\<forall>m' e. source_stats m' sid = Some e \<and> counters_of e = (0, 0, 0, 0, 0) \<longrightarrow>
            counters_of (get_source_stats m' sid) = counters_of (get_source_stats m sid)) \<and>
         (\<forall>m' e. entries_keyed m' \<and> source_stats m' sid = Some e \<longrightarrow>
            src_id (get_source_stats m' sid) = sid \<and>
            (get_source_stats m' sid = get_source_stats m sid) =
              (sid = 0 \<and> counters_of e = (0, 0, 0, 0, 0) \<and> last_seq e = 0 \<and> last_ts_ns e = 0))"
proof -
  have d: "get_source_stats m sid = SourceStats_default"
    using assms by (simp add: get_source_stats_def)
  have fields: "src_id SourceStats_default = 0" "counters_of SourceStats_default = (0, 0, 0, 0, 0)"
    "last_seq SourceStats_default = 0" "last_ts_ns SourceStats_default = 0"
    by (simp_all add: SourceStats_default_def counters_of_def)
  have same: "counters_of (get_source_stats m' sid) = counters_of (get_source_stats m sid)"
    if "source_stats m' sid = Some e" "counters_of e = (0, 0, 0, 0, 0)" for m' e
  proof -
    have "get_source_stats m' sid = e" using that(1) by (simp add: get_source_stats_def)
    then show ?thesis using that(2) by (simp add: d fields)
  qed
  have tell: "src_id (get_source_stats m' sid) = sid \<and>
      (get_source_stats m' sid = get_source_stats m sid) =
        (sid = 0 \<and> counters_of e = (0, 0, 0, 0, 0) \<and> last_seq e = 0 \<and> last_ts_ns e = 0)"
    if k: "entries_keyed m'" and e: "source_stats m' sid = Some e" for m' e
  proof -
    from k e have sid: "src_id e = sid" by (simp add: entries_keyed_def)
    have g: "get_source_stats m' sid = e" using e by (simp add: get_source_stats_def)
    have "(e = SourceStats_default) =
            (src_id e = 0 \<and> counters_of e = (0, 0, 0, 0, 0) \<and> last_seq e = 0 \<and> last_ts_ns e = 0)"
      by (cases e) (auto simp add: SourceStats_default_def counters_of_def)
    with sid show ?thesis by (simp add: g d)
  qed
  from d fields same tell show ?thesis by (simp add: d)
qed

text \<open>On a fresh manager the ids 5 and 0 are unknown. After \<open>record_gap 5 0\<close> id 5 has an
  entry with zero counters whose answer carries \<open>src_id = 5\<close>; after \<open>record_gap 0 0\<close> the
  answer for id 0 is the one an unknown id gets.\<close>

theorem get_source_stats_unknown_witness:
  "source_stats StatsManager_new 5 = None \<and>
   get_source_stats StatsManager_new 5 = SourceStats_default \<and>
   counters_of (get_source_stats (record_gap StatsManager_new 5 0) 5)
     = counters_of (get_source_stats StatsManager_new 5) \<and>
   src_id (get_source_stats (record_gap StatsManager_new 5 0) 5) = 5 \<and>
   get_source_stats (record_gap StatsManager_new 0 0) 0 = get_source_stats StatsManager_new 0"
proof -
  have n5: "source_stats StatsManager_new 5 = None" and n0: "source_stats StatsManager_new 0 = None"
    by (simp_all add: StatsManager_new_def)
  have k5: "source_stats (record_gap StatsManager_new 5 0) 5 = Some (SourceStats_default\<lparr>src_id := 5\<rparr>)"
    and k0: "source_stats (record_gap StatsManager_new 0 0) 0 = Some (SourceStats_default\<lparr>src_id := 0\<rparr>)"
    by (simp_all add: record_gap_def StatsManager_new_def get_or_create_source_def put_source_def
          Let_def SourceStats_default_def)
  have key: "entries_keyed (record_gap StatsManager_new 5 0)"
    "entries_keyed (record_gap StatsManager_new 0 0)"
    by (rule entries_keyed_record [OF entries_keyed_new])+
  have c: "counters_of (SourceStats_default\<lparr>src_id := s\<rparr>) = (0, 0, 0, 0, 0)"
    "last_seq (SourceStats_default\<lparr>src_id := s\<rparr>) = 0"
    "last_ts_ns (SourceStats_default\<lparr>src_id := s\<rparr>) = 0" for s
    by (simp_all add: counters_of_def SourceStats_default_def)
  note t5 = get_source_stats_unknown [OF n5]
  note t0 = get_source_stats_unknown [OF n0]
  have a: "get_source_stats StatsManager_new 5 = SourceStats_default" using t5 by blast
  have b: "counters_of (get_source_stats (record_gap StatsManager_new 5 0) 5)
     = counters_of (get_source_stats StatsManager_new 5)"
    using t5 k5 c by blast
  have s5: "src_id (get_source_stats (record_gap StatsManager_new 5 0) 5) = 5"
    using t5 k5 key(1) by blast
  have z: "get_source_stats (record_gap StatsManager_new 0 0) 0 = get_source_stats StatsManager_new 0"
    using t0 k0 key(2) c by blast
  from n5 a b s5 z show ?thesis by simp
qed

text \<open>Claim C10 as stated fails: source 5 with all counters zero is told apart from the
  unknown source 5 by the \<open>src_id\<close> field of the answer.\<close>

theorem unknown_source_distinguishable:
  "source_stats StatsManager_new 5 = None \<and>
   counters_of (get_source_stats (record_gap StatsManager_new 5 0) 5) = (0, 0, 0, 0, 0) \<and>
   get_source_stats (record_gap StatsManager_new 5 0) 5 \<noteq> get_source_stats StatsManager_new 5"
  by (simp add: record_gap_def StatsManager_new_def get_or_create_source_def put_source_def
        get_source_stats_def Let_def SourceStats_default_def counters_of_def)

section \<open>Control-channel framer: results\<close>

lemma ff_mask: "(0xFF :: u32) = mask 8"
  by (simp add: mask_eq_exp_minus_1)

lemma read_frame_len_bytes:
  "push_bit 24 (ucast (ucast (drop_bit 24 w AND 0xFF) :: u8)) OR
   push_bit 16 (ucast (ucast (drop_bit 16 w AND 0xFF) :: u8)) OR
   push_bit 8 (ucast (ucast (drop_bit 8 w AND 0xFF) :: u8)) OR
   ucast (ucast (w AND 0xFF) :: u8) = (w :: u32)"
  unfolding ff_mask
proof (rule bit_word_eqI)
  fix n
  assume "n < LENGTH(32)"
  then consider "n < 8" | "8 \<le> n" "n < 16" | "16 \<le> n" "n < 24" | "24 \<le> n" "n < 32"
    by fastforce
  then show "bit (push_bit 24 (ucast (ucast (drop_bit 24 w AND mask 8) :: u8)) OR
      push_bit 16 (ucast (ucast (drop_bit 16 w AND mask 8) :: u8)) OR
      push_bit 8 (ucast (ucast (drop_bit 8 w AND mask 8) :: u8)) OR
      ucast (ucast (w AND mask 8) :: u8) :: u32) n = bit w n"
  proof cases
    case 1
    then show ?thesis by (simp add: bit_simps)
  next
    case 2
    then show ?thesis by (simp add: bit_simps) arith
  next
    case 3
    then show ?thesis by (simp add: bit_simps) arith
  next
    case 4
    then show ?thesis by (simp add: bit_simps) arith
  qed
qed

lemma length_encode: "length (encode p) = 4 + length p"
  by (simp add: encode_def Let_def)

lemma encode_not_Nil: "encode p \<noteq> []"
  by (simp add: encode_def Let_def)

lemma read_frame_len_encode: "read_frame_len (encode p @ rest) = of_nat (length p)"
  by (simp add: read_frame_len_def encode_def Let_def read_frame_len_bytes)

lemma read_frame_len_append: "4 \<le> length x \<Longrightarrow> read_frame_len (x @ y) = read_frame_len x"
  by (auto simp add: read_frame_len_def nth_append)

lemma valid_payload_len:
  assumes "valid_payload p"
  shows "unat (of_nat (length p) :: u32) = length p"
    and "(of_nat (length p) :: u32) \<le> MAX_FRAME_LEN"
proof -
  from assms have le: "length p \<le> 10485760" by (simp add: valid_payload_def)
  then show u: "unat (of_nat (length p) :: u32) = length p"
    by (simp add: unat_of_nat)
  show "(of_nat (length p) :: u32) \<le> MAX_FRAME_LEN"
    using le by (simp add: word_le_nat_alt u unat_MAX_FRAME_LEN)
qed

lemma try_extract_partial:
  assumes v: "valid_payload q"
      and pre: "buffer f @ y = encode q @ z"
      and short: "length (buffer f) < length (encode q)"
  shows "try_extract_frames f = f"
proof (cases "4 \<le> length (buffer f)")
  case False
  then show ?thesis by (subst try_extract_frames.simps) simp
next
  case True
  have "read_frame_len (buffer f) = read_frame_len (buffer f @ y)"
    using True by (simp add: read_frame_len_append)
  also have "\<dots> = of_nat (length q)"
    by (simp add: pre read_frame_len_encode)
  finally have len: "read_frame_len (buffer f) = of_nat (length q)" .
  have le: "\<not> read_frame_len (buffer f) > MAX_FRAME_LEN"
    using valid_payload_len(2) [OF v] by (simp add: len not_less)
  have "unat (4 + read_frame_len (buffer f)) = 4 + length q"
    using valid_payload_len [OF v] by (simp add: len unat_4_plus)
  then have lt: "length (buffer f) < unat (4 + read_frame_len (buffer f))"
    using short by (simp add: length_encode)
  show ?thesis
    using True le lt by (subst try_extract_frames.simps) simp
qed

lemma try_extract_complete:
  assumes v: "valid_payload q"
      and buf: "buffer f = encode q @ rest"
  shows "try_extract_frames f =
           try_extract_frames (f\<lparr>buffer := rest, ready_frames := ready_frames f @ [q]\<rparr>)"
proof -
  have four: "4 \<le> length (buffer f)" by (simp add: buf length_encode)
  have len: "read_frame_len (buffer f) = of_nat (length q)"
    by (simp add: buf read_frame_len_encode)
  have le: "\<not> read_frame_len (buffer f) > MAX_FRAME_LEN"
    using valid_payload_len(2) [OF v] by (simp add: len not_less)
  have u4: "unat (4 + read_frame_len (buffer f)) = 4 + length q"
    using valid_payload_len [OF v] by (simp add: len unat_4_plus)
  have enough: "\<not> length (buffer f) < unat (4 + read_frame_len (buffer f))"
    unfolding u4 by (simp add: buf length_encode)
  have d4: "drop 4 (encode q @ rest) = q @ rest"
    by (simp add: encode_def Let_def)
  have dall: "drop (4 + length q) (encode q @ rest) = rest"
    using length_encode [of q] by simp
  have lq: "unat (read_frame_len (buffer f)) = length q"
    by (simp add: len valid_payload_len(1) [OF v])
  have payload: "take (unat (read_frame_len (buffer f))) (drop 4 (buffer f)) = q"
    unfolding lq unfolding buf d4 by simp
  have popped: "drop (unat (4 + read_frame_len (buffer f))) (buffer f) = rest"
    unfolding u4 unfolding buf dall by (rule refl)
  have one: "extract_one f = f\<lparr>buffer := rest, ready_frames := ready_frames f @ [q]\<rparr>"
    unfolding extract_one_def Let_def payload popped by (rule refl)
  show ?thesis
    using four le enough by (subst try_extract_frames.simps) (simp add: one)
qed

lemma try_extract_stream:
  assumes "\<forall>q \<in> set qs. valid_payload q"
      and "buffer f @ y = concat (map encode qs)"
  shows "\<exists>qs1 qs2 b'.
           try_extract_frames f = f\<lparr>buffer := b', ready_frames := ready_frames f @ qs1\<rparr> \<and>
           qs = qs1 @ qs2 \<and> b' @ y = concat (map encode qs2) \<and>
           (y = [] \<longrightarrow> b' = [] \<and> qs2 = [])"
  using assms
proof (induction qs arbitrary: f)
  case Nil
  then have "buffer f = []" and "y = []" by simp_all
  then have "try_extract_frames f = f\<lparr>buffer := [], ready_frames := ready_frames f @ []\<rparr>"
    by (subst try_extract_frames.simps) simp
  then show ?case using \<open>y = []\<close> by fastforce
next
  case (Cons q qs)
  from Cons.prems have v: "valid_payload q" and vs: "\<forall>q \<in> set qs. valid_payload q"
    by simp_all
  from Cons.prems have str: "buffer f @ y = encode q @ concat (map encode qs)" by simp
  show ?case
  proof (cases "length (buffer f) < length (encode q)")
    case True
    have stay: "try_extract_frames f = f"
      by (rule try_extract_partial [OF v str True])
    have "y \<noteq> []"
    proof
      assume "y = []"
      with str have "length (buffer f) = length (encode q) + length (concat (map encode qs))"
        by (simp flip: length_append)
      with True show False by simp
    qed
    with stay str show ?thesis
      by (intro exI [of _ "[]"] exI [of _ "q # qs"] exI [of _ "buffer f"]) simp
  next
    case False
    then have "length (encode q) \<le> length (buffer f)" by simp
    then have n: "length (encode q) \<le> length (buffer f)" .
    have "take (length (encode q)) (buffer f @ y)
            = take (length (encode q)) (encode q @ concat (map encode qs))"
      by (simp only: str)
    then have t: "take (length (encode q)) (buffer f) = encode q"
      using n by simp
    define rest where "rest = drop (length (encode q)) (buffer f)"
    have "buffer f = take (length (encode q)) (buffer f) @ rest"
      by (simp add: rest_def)
    then have buf: "buffer f = encode q @ rest"
      by (simp only: t)
    have rest: "rest @ y = concat (map encode qs)"
      using str by (simp add: buf)
    let ?g = "f\<lparr>buffer := rest, ready_frames := ready_frames f @ [q]\<rparr>"
    have step: "try_extract_frames f = try_extract_frames ?g"
      by (rule try_extract_complete [OF v buf])
    have "buffer ?g @ y = concat (map encode qs)" using rest by simp
    from Cons.IH [OF vs this] obtain qs1 qs2 b' where
      r: "try_extract_frames ?g = ?g\<lparr>buffer := b', ready_frames := ready_frames ?g @ qs1\<rparr>"
      and split: "qs = qs1 @ qs2" and left: "b' @ y = concat (map encode qs2)"
      and fin: "y = [] \<longrightarrow> b' = [] \<and> qs2 = []"
      by blast
    have "try_extract_frames f = f\<lparr>buffer := b', ready_frames := ready_frames f @ (q # qs1)\<rparr>"
      by (simp add: step r)
    with split left fin show ?thesis
      by (intro exI [of _ "q # qs1"] exI [of _ qs2] exI [of _ b']) simp
  qed
qed

lemma try_extract_idem: "try_extract_frames (try_extract_frames f) = try_extract_frames f"
proof (induction f rule: try_extract_frames.induct)
  case (1 f)
  show ?case
  proof (cases "4 \<le> length (buffer f) \<and> \<not> read_frame_len (buffer f) > MAX_FRAME_LEN
                 \<and> \<not> length (buffer f) < unat (4 + read_frame_len (buffer f))")
    case True
    then have "try_extract_frames f = try_extract_frames (extract_one f)"
      by (subst try_extract_frames.simps) simp
    with True "1.IH" show ?thesis by simp
  next
    case False
    then consider "\<not> 4 \<le> length (buffer f)"
      | "4 \<le> length (buffer f)" "read_frame_len (buffer f) > MAX_FRAME_LEN"
      | "4 \<le> length (buffer f)" "\<not> read_frame_len (buffer f) > MAX_FRAME_LEN"
        "length (buffer f) < unat (4 + read_frame_len (buffer f))"
      by blast
    then show ?thesis
    proof cases
      case 1
      then have "try_extract_frames f = f" by (subst try_extract_frames.simps) simp
      then show ?thesis by simp
    next
      case 2
      then have "try_extract_frames f = f\<lparr>buffer := []\<rparr>"
        by (subst try_extract_frames.simps) simp
      moreover have "try_extract_frames (f\<lparr>buffer := []\<rparr>) = f\<lparr>buffer := []\<rparr>"
        by (subst try_extract_frames.simps) simp
      ultimately show ?thesis by simp
    next
      case 3
      then have "try_extract_frames f = f" by (subst try_extract_frames.simps) simp
      then show ?thesis by simp
    qed
  qed
qed

lemma feed_all_stream:
  assumes "\<forall>q \<in> set qs. valid_payload q"
      and "buffer f @ concat chunks = concat (map encode qs)"
      and "try_extract_frames f = f"
  shows "feed_all f chunks = f\<lparr>buffer := [], ready_frames := ready_frames f @ qs\<rparr>"
  using assms
proof (induction chunks arbitrary: f qs)
  case Nil
  then have "buffer f @ [] = concat (map encode qs)" by simp
  from try_extract_stream [OF Nil.prems(1) this] obtain qs1 qs2 b' where
    r: "try_extract_frames f = f\<lparr>buffer := b', ready_frames := ready_frames f @ qs1\<rparr>"
    and split: "qs = qs1 @ qs2" and fin: "b' = [] \<and> qs2 = []"
    by blast
  from r fin split Nil.prems(3) show ?case by simp
next
  case (Cons c cs)
  let ?g = "f\<lparr>buffer := buffer f @ c\<rparr>"
  from Cons.prems(2) have "buffer ?g @ concat cs = concat (map encode qs)" by simp
  from try_extract_stream [OF Cons.prems(1) this] obtain qs1 qs2 b' where
    r: "try_extract_frames ?g = ?g\<lparr>buffer := b', ready_frames := ready_frames ?g @ qs1\<rparr>"
    and split: "qs = qs1 @ qs2" and left: "b' @ concat cs = concat (map encode qs2)"
    by blast
  define f1 where "f1 = feed f c"
  have f1: "f1 = f\<lparr>buffer := b', ready_frames := ready_frames f @ qs1\<rparr>"
    by (simp add: f1_def feed_def r)
  have stuck: "try_extract_frames f1 = f1"
    by (simp add: f1_def feed_def try_extract_idem)
  have v2: "\<forall>q \<in> set qs2. valid_payload q" using Cons.prems(1) split by simp
  have "buffer f1 @ concat cs = concat (map encode qs2)" using left by (simp add: f1)
  from Cons.IH [OF v2 this stuck]
  have "feed_all f1 cs = f1\<lparr>buffer := [], ready_frames := ready_frames f1 @ qs2\<rparr>" .
  then show ?case by (simp add: f1_def [symmetric]) (simp add: f1 split)
qed

lemma drain_all: "drain f = (ready_frames f, f\<lparr>ready_frames := []\<rparr>)"
proof (induction "ready_frames f" arbitrary: f)
  case Nil
  then have "ready_frames f = []" by simp
  then show ?case by (subst drain.simps) (simp add: has_frame_def)
next
  case (Cons p ps)
  then have rf: "ready_frames f = p # ps" by simp
  have "ps = ready_frames (f\<lparr>ready_frames := ps\<rparr>)" by simp
  from Cons.hyps(1) [OF this]
  have "drain (f\<lparr>ready_frames := ps\<rparr>) = (ps, f\<lparr>ready_frames := []\<rparr>)" by simp
  then show ?case
    by (subst drain.simps) (simp add: has_frame_def pop_frame_def rf)
qed

text \<open>Claim C5: for payloads \<open>p_1, ..., p_k\<close> of at most \<open>10 * 1024 * 1024\<close> bytes each
  and any split of the concatenated encodings into chunks, feeding the chunks in order to a
  fresh framer and draining it with \<open>pop_frame\<close> gives exactly \<open>p_1, ..., p_k\<close> in that
  order, and leaves the framer empty.\<close>

theorem framer_chunked_roundtrip:
  assumes "\<forall>p \<in> set ps. length p \<le> 10 * 1024 * 1024"
      and "concat chunks = concat (map encode ps)"
  shows "drain (feed_all TcpFramer_new chunks) = (ps, TcpFramer_new)"
proof -
  have v: "\<forall>q \<in> set ps. valid_payload q" using assms(1) by (simp add: valid_payload_def)
  have b: "buffer TcpFramer_new @ concat chunks = concat (map encode ps)"
    using assms(2) by (simp add: TcpFramer_new_def)
  have s: "try_extract_frames TcpFramer_new = TcpFramer_new"
    by (subst try_extract_frames.simps) (simp add: TcpFramer_new_def)
  have "feed_all TcpFramer_new chunks = \<lparr>buffer = [], ready_frames = ps\<rparr>"
    using feed_all_stream [OF v b s] by (simp add: TcpFramer_new_def)
  then show ?thesis by (simp add: drain_all TcpFramer_new_def)
qed

text \<open>The payloads "HELLO" and the empty string, cut into chunks that cross the frame
  boundaries (one of them empty).\<close>

theorem framer_chunked_roundtrip_witness:
  "drain (feed_all TcpFramer_new
            [[0, 0, 0], [5, 0x48, 0x45, 0x4C], [0x4C, 0x4F, 0, 0], [], [0, 0]])
     = ([[0x48, 0x45, 0x4C, 0x4C, 0x4F], []], TcpFramer_new)"
proof -
  have v: "\<forall>p \<in> set [[0x48, 0x45, 0x4C, 0x4C, 0x4F], [] :: u8 list]. length p \<le> 10 * 1024 * 1024"
    by simp
  have c: "concat [[0, 0, 0], [5, 0x48, 0x45, 0x4C], [0x4C, 0x4F, 0, 0], [], [0, 0]]
             = concat (map encode [[0x48, 0x45, 0x4C, 0x4C, 0x4F], []])"
    by (simp add: encode_def)
  show ?thesis by (rule framer_chunked_roundtrip [OF v c])
qed

section \<open>Fault injector: results\<close>




lemma drawing_calls_idem: "drawing_calls (drawing_calls history) = drawing_calls history"
  by (simp add: drawing_calls_def)







text \<open>For every library: with only the loss stage on, a call advances the engine by one
  draw per frame of the batch.\<close>

lemma drop_frames_engine:
  "fst (snd (drop_frames R c frames g st)) = (next_engine R ^^ length frames) g"
proof (induction frames arbitrary: g st)
  case Nil
  show ?case by simp
next
  case (Cons frame rest)
  have "fst (snd (drop_frames R c (frame # rest) g st)) =
          (next_engine R ^^ length rest) (next_engine R g)"
    by (simp add: case_prod_beta Let_def Cons.IH next_engine_def [symmetric])
  then show ?case by (simp add: funpow_swap1)
qed

lemma loss_only_engine:
  assumes "\<not> less_double R (zero_double R) (corrupt_pct (fi_config fi))"
      and "\<not> less_double R (zero_double R) (duplicate_pct (fi_config fi))"
      and "less_double R (zero_double R) (loss_pct (fi_config fi))"
      and "\<not> less_double R (zero_double R) (reorder_pct (fi_config fi))"
  shows "fi_rng (snd (FaultInjector_apply R fi frames)) =
           (next_engine R ^^ length frames) (fi_rng fi)"
  using assms
  by (simp add: FaultInjector_apply_def Let_def case_prod_beta drop_frames_engine)

end
